theory Spec2Isabelle
  imports Complex_Main "HOL-Library.AList" "HOL-Library.Multiset"
begin

section \<open>JavaScript numbers\<close>

text \<open>
  A JavaScript number is an IEEE-754 double: a finite value, one of the two infinities,
  or NaN. A finite value is modelled by the real number it stands for, and the two
  signed zeros are one value (both are falsy and compare equal, and the similarity
  never divides by a negative zero: its divisor is a product of square roots).

  Every operation rounds its exact result to the nearest double, ties to the one with
  the even significand. Near \<open>x\<close> the doubles are the multiples of \<open>2 ^ e\<close>, where \<open>e\<close>
  is 52 below the binary exponent of \<open>x\<close> and never below \<open>-1074\<close>, the exponent of the
  smallest subnormal; a result that rounds to magnitude \<open>2 ^ 1024\<close> or more overflows
  to an infinity.
\<close>

datatype jsnum = NaN | PInf | NInf | Num real

text \<open>The sign of an infinity.\<close>

definition signed_inf :: "bool \<Rightarrow> jsnum" where
  "signed_inf positive = (if positive then PInf else NInf)"

definition round_half_even :: "real \<Rightarrow> int" where
  "round_half_even y =
     (let f = \<lfloor>y\<rfloor>; d = y - of_int f
      in if d < 1 / 2 then f else if 1 / 2 < d then f + 1 else if even f then f else f + 1)"

definition ulp_exponent :: "real \<Rightarrow> int" where
  "ulp_exponent x = max (\<lfloor>log 2 \<bar>x\<bar>\<rfloor> - 52) (- 1074)"

definition to_double :: "real \<Rightarrow> jsnum" where
  "to_double x =
     (if x = 0 then Num 0
      else let e = ulp_exponent x;
               r = of_int (round_half_even (x / 2 powr of_int e)) * 2 powr of_int e
           in if 2 ^ 1024 \<le> \<bar>r\<bar> then signed_inf (0 < x) else Num r)"

text \<open>
  The special cases of the operators follow ECMAScript: NaN is absorbing,
  \<open>Infinity - Infinity\<close>, \<open>0 * Infinity\<close>, \<open>0 / 0\<close> and \<open>Infinity / Infinity\<close> are NaN,
  and a non-zero number divided by zero is an infinity.
\<close>

fun jsneg :: "jsnum \<Rightarrow> jsnum" where
  "jsneg NaN = NaN"
| "jsneg PInf = NInf"
| "jsneg NInf = PInf"
| "jsneg (Num a) = Num (- a)"

fun jsadd :: "jsnum \<Rightarrow> jsnum \<Rightarrow> jsnum" where
  "jsadd NaN y = NaN"
| "jsadd x NaN = NaN"
| "jsadd PInf NInf = NaN"
| "jsadd NInf PInf = NaN"
| "jsadd PInf y = PInf"
| "jsadd NInf y = NInf"
| "jsadd x PInf = PInf"
| "jsadd x NInf = NInf"
| "jsadd (Num a) (Num b) = to_double (a + b)"

definition jssub :: "jsnum \<Rightarrow> jsnum \<Rightarrow> jsnum" where
  "jssub x y = jsadd x (jsneg y)"

fun jsmul :: "jsnum \<Rightarrow> jsnum \<Rightarrow> jsnum" where
  "jsmul NaN y = NaN"
| "jsmul x NaN = NaN"
| "jsmul PInf PInf = PInf"
| "jsmul PInf NInf = NInf"
| "jsmul NInf PInf = NInf"
| "jsmul NInf NInf = PInf"
| "jsmul PInf (Num b) = (if b = 0 then NaN else signed_inf (0 < b))"
| "jsmul NInf (Num b) = (if b = 0 then NaN else signed_inf (b < 0))"
| "jsmul (Num a) PInf = (if a = 0 then NaN else signed_inf (0 < a))"
| "jsmul (Num a) NInf = (if a = 0 then NaN else signed_inf (a < 0))"
| "jsmul (Num a) (Num b) = to_double (a * b)"

fun jsdiv :: "jsnum \<Rightarrow> jsnum \<Rightarrow> jsnum" where
  "jsdiv NaN y = NaN"
| "jsdiv x NaN = NaN"
| "jsdiv PInf PInf = NaN"
| "jsdiv PInf NInf = NaN"
| "jsdiv NInf PInf = NaN"
| "jsdiv NInf NInf = NaN"
| "jsdiv PInf (Num b) = signed_inf (0 \<le> b)"
| "jsdiv NInf (Num b) = signed_inf (b < 0)"
| "jsdiv (Num a) PInf = Num 0"
| "jsdiv (Num a) NInf = Num 0"
| "jsdiv (Num a) (Num b) =
     (if b = 0 then (if a = 0 then NaN else signed_inf (0 < a)) else to_double (a / b))"

text \<open>\<open>Math.sqrt\<close>: NaN for a negative argument, and correctly rounded otherwise.\<close>

fun Math_sqrt :: "jsnum \<Rightarrow> jsnum" where
  "Math_sqrt NaN = NaN"
| "Math_sqrt PInf = PInf"
| "Math_sqrt NInf = NaN"
| "Math_sqrt (Num a) = (if a < 0 then NaN else to_double (sqrt a))"

text \<open>Truthiness of a number (\<open>ToBoolean\<close>): every number but NaN and zero.\<close>

fun truthy_num :: "jsnum \<Rightarrow> bool" where
  "truthy_num NaN = False"
| "truthy_num (Num a) = (a \<noteq> 0)"
| "truthy_num x = True"

text \<open>The relational operators on numbers: every comparison with NaN is false.\<close>

fun js_less :: "jsnum \<Rightarrow> jsnum \<Rightarrow> bool" where
  "js_less NaN y = False"
| "js_less x NaN = False"
| "js_less PInf y = False"
| "js_less x PInf = True"
| "js_less NInf NInf = False"
| "js_less NInf y = True"
| "js_less x NInf = False"
| "js_less (Num a) (Num b) = (a < b)"

section \<open>Cosine similarity\<close>

text \<open>
  An embedding is an array of numbers. Reading an array past its end gives
  \<open>undefined\<close>, which the multiplication converts to NaN. The entries are doubles;
  what is proved of a vector is proved of every vector of reals, the doubles among them.
\<close>

type_synonym embedding = "jsnum list"

definition at_index :: "embedding \<Rightarrow> nat \<Rightarrow> jsnum" where
  "at_index xs i = (if i < length xs then xs ! i else NaN)"

text \<open>
  The \<open>for\<close> loop of \<open>calculateCosineSimilarity\<close>, from index \<open>i\<close>, on the three
  accumulators \<open>dotProduct\<close>, \<open>norm1\<close> and \<open>norm2\<close>. The bound is the length of the first
  argument only.
\<close>

function cosine_loop ::
  "embedding \<Rightarrow> embedding \<Rightarrow> nat \<Rightarrow> jsnum \<times> jsnum \<times> jsnum \<Rightarrow> jsnum \<times> jsnum \<times> jsnum" where
  "cosine_loop embedding1 embedding2 i (dotProduct, norm1, norm2) =
     (if i < length embedding1
      then cosine_loop embedding1 embedding2 (Suc i)
             (jsadd dotProduct (jsmul (at_index embedding1 i) (at_index embedding2 i)),
              jsadd norm1 (jsmul (at_index embedding1 i) (at_index embedding1 i)),
              jsadd norm2 (jsmul (at_index embedding2 i) (at_index embedding2 i)))
      else (dotProduct, norm1, norm2))"
  by pat_completeness auto
termination
  by (relation "measure (\<lambda>(embedding1, embedding2, i, acc). length embedding1 - i)") auto

declare cosine_loop.simps [simp del]

text \<open>\<open>x || 0\<close> on a number \<open>x\<close>.\<close>

definition or_zero :: "jsnum \<Rightarrow> jsnum" where
  "or_zero x = (if truthy_num x then x else Num 0)"

definition calculateCosineSimilarity :: "embedding \<Rightarrow> embedding \<Rightarrow> jsnum" where
  "calculateCosineSimilarity embedding1 embedding2 =
     (case cosine_loop embedding1 embedding2 0 (Num 0, Num 0, Num 0) of
        (dotProduct, norm1, norm2) \<Rightarrow>
          or_zero (jsdiv dotProduct (jsmul (Math_sqrt norm1) (Math_sqrt norm2))))"

text \<open>
  The quantities the similarity is specified by, as the doubles compute them: the sum,
  from the left and rounded at every step, of the products of the entries of two
  vectors at the indices below \<open>n\<close>. The square root of such a sum of a vector with
  itself is its magnitude.
\<close>

definition rounded_dot :: "nat \<Rightarrow> embedding \<Rightarrow> embedding \<Rightarrow> jsnum" where
  "rounded_dot n a b =
     foldl jsadd (Num 0) (map (\<lambda>i. jsmul (at_index a i) (at_index b i)) [0..<n])"

definition zero_or_nan :: "jsnum \<Rightarrow> bool" where
  "zero_or_nan x = (x = Num 0 \<or> x = NaN)"


section \<open>Strings and keyword extraction\<close>

text \<open>
  A string is a sequence of code units below 256 (Isabelle's \<open>char\<close>), read as
  Latin-1. In that range \<open>toLowerCase\<close> maps \<open>A\<close>-\<open>Z\<close> and the accented capitals
  \<open>0xC0\<close>-\<open>0xDE\<close> (without the multiplication sign \<open>0xD7\<close>) to the code unit 32 above;
  the class \<open>\w\<close> is \<open>[A-Za-z0-9_]\<close>; the class \<open>\s\<close> is tab, line feed, vertical tab,
  form feed, carriage return, space and the no-break space.
\<close>

definition code_unit :: "char \<Rightarrow> nat" where
  "code_unit c = of_char c"

definition is_word_char :: "char \<Rightarrow> bool" where
  "is_word_char c =
     (let n = code_unit c
      in (48 \<le> n \<and> n \<le> 57) \<or> (65 \<le> n \<and> n \<le> 90) \<or> n = 95 \<or> (97 \<le> n \<and> n \<le> 122))"

definition is_white_space :: "char \<Rightarrow> bool" where
  "is_white_space c = (code_unit c \<in> {9, 10, 11, 12, 13, 32, 160})"

definition toLowerCase_unit :: "char \<Rightarrow> char" where
  "toLowerCase_unit c =
     (let n = code_unit c
      in if (65 \<le> n \<and> n \<le> 90) \<or> (192 \<le> n \<and> n \<le> 222 \<and> n \<noteq> 215)
         then char_of (n + 32) else c)"

definition toLowerCase :: "string \<Rightarrow> string" where
  "toLowerCase s = map toLowerCase_unit s"

text \<open>\<open>.replace(/[^\w\s]/g, ' ')\<close>\<close>

definition replace_non_word :: "string \<Rightarrow> string" where
  "replace_non_word s =
     map (\<lambda>c. if \<not> is_word_char c \<and> \<not> is_white_space c then CHR '' '' else c) s"

text \<open>
  \<open>.split(/\s+/)\<close>: the pieces between the maximal runs of white space. A run at the
  start or at the end of the string leaves an empty piece there, and the empty string
  splits into one empty piece.
\<close>

function split_from :: "string \<Rightarrow> string \<Rightarrow> string list" where
  "split_from piece [] = [piece]"
| "split_from piece (c # cs) =
     (if is_white_space c then piece # split_from [] (dropWhile is_white_space cs)
      else split_from (piece @ [c]) cs)"
  by pat_completeness auto
termination
  by (relation "measure (\<lambda>(piece, s). length s)")
     (auto simp: le_imp_less_Suc length_dropWhile_le)

definition split_white_space :: "string \<Rightarrow> string list" where
  "split_white_space s = split_from [] s"

text \<open>\<open>Array.prototype.join\<close>: \<open>null\<close> and \<open>undefined\<close> elements (\<open>None\<close>) join as the empty string.\<close>

fun array_join :: "string \<Rightarrow> string option list \<Rightarrow> string" where
  "array_join sep [] = []"
| "array_join sep [x] = (case x of None \<Rightarrow> [] | Some s \<Rightarrow> s)"
| "array_join sep (x # y # ys) =
     (case x of None \<Rightarrow> [] | Some s \<Rightarrow> s) @ sep @ array_join sep (y # ys)"

text \<open>
  A \<open>Set\<close> of strings is the list of its members in insertion order, which is the order
  \<open>Array.from\<close> reads them in; \<open>add\<close> leaves a set that has the member already as it is.
\<close>

definition Set_add :: "string \<Rightarrow> string list \<Rightarrow> string list" where
  "Set_add x members = (if x \<in> set members then members else members @ [x])"

text \<open>
  A repository as the source-control API lists it: the fields the router reads.
  \<open>description\<close> may be \<open>null\<close> and \<open>topics\<close> may be missing.
\<close>

record github_repo =
  repo_name :: string
  repo_full_name :: string
  repo_description :: "string option"
  repo_topics :: "string list option"

definition words_of :: "string \<Rightarrow> string list" where
  "words_of extractFrom =
     filter (\<lambda>word. 2 < length word)
       (split_white_space (replace_non_word (toLowerCase extractFrom)))"

definition extractKeywords :: "github_repo \<Rightarrow> string list" where
  "extractKeywords r =
     (let keywords = [];
          keywords = (case repo_topics r of None \<Rightarrow> keywords
                      | Some topics \<Rightarrow> fold Set_add topics keywords);
          extractFrom = array_join '' '' [Some (repo_name r), repo_description r];
          words = words_of extractFrom
      in fold Set_add words keywords)"

text \<open>
  The words of the specification: the tokens of a text are its maximal runs of
  characters that are not white space.
\<close>

function tokens :: "string \<Rightarrow> string list" where
  "tokens [] = []"
| "tokens (c # cs) =
     (if is_white_space c then tokens cs
      else (c # takeWhile (\<lambda>x. \<not> is_white_space x) cs)
             # tokens (dropWhile (\<lambda>x. \<not> is_white_space x) cs))"
  by pat_completeness auto
termination
  by (relation "measure length") (auto simp: le_imp_less_Suc length_dropWhile_le)

definition keywords_spec :: "string list \<Rightarrow> string \<Rightarrow> string \<Rightarrow> string set" where
  "keywords_spec topics nm descr =
     set topics \<union>
     {t \<in> set (tokens (replace_non_word (toLowerCase (nm @ '' '' @ descr)))). 2 < length t}"

section \<open>Errors, response bodies and the outside world\<close>

text \<open>A JSON value, as \<open>response.json()\<close> parses a response body.\<close>

datatype json =
    JNull
  | JBool bool
  | JNumber real
  | JString string
  | JArray "json list"
  | JObject "(string \<times> json) list"

text \<open>
  What the code can throw. \<open>Error v\<close> is \<open>new Error(v)\<close>: the constructor keeps the
  string conversion of its argument as the message, which for a string is the string
  itself. \<open>External\<close> is an error value made outside this code (a rejected \<open>fetch\<close>, a
  failed API request, a body that is not JSON), named by a text.
\<close>

datatype js_error =
    Error json
  | TypeError string
  | External string

fun truthy_json :: "json \<Rightarrow> bool" where
  "truthy_json JNull = False"
| "truthy_json (JBool b) = b"
| "truthy_json (JNumber x) = (x \<noteq> 0)"
| "truthy_json (JString s) = (s \<noteq> [])"
| "truthy_json (JArray xs) = True"
| "truthy_json (JObject kvs) = True"

text \<open>
  Reading the property \<open>key\<close> of a parsed body, \<open>None\<close> for \<open>undefined\<close>. Only the names
  \<open>error\<close> and \<open>message\<close> are read, which no string, number, boolean or array has;
  reading a property of \<open>null\<close> throws.
\<close>

fun get_property :: "json \<Rightarrow> string \<Rightarrow> js_error + json option" where
  "get_property JNull key =
     Inl (TypeError (''Cannot read properties of null (reading '' @ key @ '')''))"
| "get_property (JObject kvs) key = Inr (map_of kvs key)"
| "get_property v key = Inr None"

text \<open>\<open>data.error?.message\<close>\<close>

definition error_message :: "json \<Rightarrow> js_error + json option" where
  "error_message data =
     (case get_property data ''error'' of
        Inl e \<Rightarrow> Inl e
      | Inr None \<Rightarrow> Inr None
      | Inr (Some JNull) \<Rightarrow> Inr None
      | Inr (Some err) \<Rightarrow> get_property err ''message'')"

text \<open>\<open>m || 'Failed to create embedding'\<close>\<close>

definition or_failed :: "json option \<Rightarrow> json" where
  "or_failed m =
     (case m of
        None \<Rightarrow> JString ''Failed to create embedding''
      | Some v \<Rightarrow> if truthy_json v then v else JString ''Failed to create embedding'')"

text \<open>
  The words of the specification: the provider's error message is the member
  \<open>message\<close> of the member \<open>error\<close> of the body, when the body is an object that has
  an object there with such a member.
\<close>

fun provider_message :: "json \<Rightarrow> json option" where
  "provider_message (JObject kvs) =
     (case map_of kvs ''error'' of
        Some (JObject err) \<Rightarrow> map_of err ''message''
      | other \<Rightarrow> None)"
| "provider_message v = None"

text \<open>
  What one \<open>fetch\<close> of the embeddings endpoint comes to: the request itself is rejected
  (a failure of the network); or there is a response and reading its body as JSON is
  rejected (\<open>Json_rejected ok e\<close>, with the response's \<open>ok\<close> flag); or the body parses
  to \<open>data\<close>. A response that is not \<open>ok\<close> carries any JSON value. The body of an \<open>ok\<close> response is taken at the provider's schema,
  \<open>{data: [{embedding: number[]}, ...]}\<close>, and is the list of its vectors.
\<close>

datatype fetch_outcome =
    Fetch_rejected js_error
  | Json_rejected bool js_error
  | Response_not_ok json
  | Response_ok "embedding list"

record org =
  org_login :: string

text \<open>The requests the router sends, with what they carry.\<close>

datatype request =
    Orgs_listForAuthenticatedUser string
  | Repos_listForAuthenticatedUser string
  | Repos_listForOrg string string nat
  | Fetch_POST string "(string \<times> string) list" string string

text \<open>
  The outside world answers a request from the requests made before it: the answers
  are whatever they are, and the same request can be answered differently the next time.
\<close>

record network =
  octokit_orgs :: "request list \<Rightarrow> request \<Rightarrow> js_error + org list"
  octokit_repos :: "request list \<Rightarrow> request \<Rightarrow> js_error + github_repo list"
  fetch :: "request list \<Rightarrow> request \<Rightarrow> fetch_outcome"

section \<open>The router\<close>

record RepositoryRecord =
  description :: string
  "keywords" :: "string list"
  embedding :: embedding

text \<open>
  The fields of a \<open>SmartRouter\<close>, and with them the requests sent so far. The mapping
  \<open>repositories\<close> is the list of its entries in the order \<open>Object.entries\<close> gives them:
  a repository's full name has the form \<open>owner/name\<close>, so no key is an array index and
  the entries are in the order of their first assignment. \<open>assigned\<close> is a history
  variable, the assignments \<open>this.repositories[k] = v\<close> performed so far, oldest first;
  no function reads it.
\<close>

record state =
  octokit_auth :: string
  repositories :: "(string \<times> RepositoryRecord) list"
  voyageHeaders :: "(string \<times> string) list"
  requests :: "request list"
  assigned :: "(string \<times> RepositoryRecord) list"

subsection \<open>The constructor\<close>

text \<open>
  \<open>process.env\<close> maps a variable to its value, if it has one. \<open>dotenv.config()\<close> adds
  the variables of the \<open>.env\<close> file that the environment does not have already.
\<close>

type_synonym env = "string \<Rightarrow> string option"

definition dotenv_config :: "(string \<times> string) list \<Rightarrow> env \<Rightarrow> env" where
  "dotenv_config dotenv_file process_env =
     (\<lambda>var. case process_env var of Some v \<Rightarrow> Some v | None \<Rightarrow> map_of dotenv_file var)"

text \<open>\<open>!process.env.X\<close>: the variable is not set, or is the empty string.\<close>

definition not_env :: "string option \<Rightarrow> bool" where
  "not_env v = (case v of None \<Rightarrow> True | Some s \<Rightarrow> s = [])"

definition env_value :: "string option \<Rightarrow> string" where
  "env_value v = (case v of None \<Rightarrow> ''undefined'' | Some s \<Rightarrow> s)"

text \<open>
  \<open>new SmartRouter()\<close>, given the \<open>.env\<close> file, the environment and the requests sent
  before: the error thrown or the new router, and the requests sent after.
\<close>

definition new_SmartRouter ::
  "(string \<times> string) list \<Rightarrow> env \<Rightarrow> request list \<Rightarrow> (js_error + state) \<times> request list" where
  "new_SmartRouter dotenv_file process_env sent =
     (let env = dotenv_config dotenv_file process_env
      in if not_env (env ''GITHUB_TOKEN'') \<or> not_env (env ''VOYAGE_API_KEY'')
         then (Inl (Error (JString
                 ''Missing required environment variables: GITHUB_TOKEN and/or VOYAGE_API_KEY'')),
               sent)
         else (Inr \<lparr>octokit_auth = env_value (env ''GITHUB_TOKEN''),
                    repositories = [],
                    voyageHeaders =
                      [(''Authorization'', ''Bearer '' @ env_value (env ''VOYAGE_API_KEY'')),
                       (''Content-Type'', ''application/json'')],
                    requests = sent,
                    assigned = []\<rparr>,
               sent))"

subsection \<open>Embeddings\<close>

text \<open>
  What \<open>createEmbedding\<close> makes of the outcome of its one \<open>fetch\<close>. The \<open>catch\<close> block
  logs and rethrows the error it caught, so each error leaves as it was raised.
\<close>

definition embedding_result :: "fetch_outcome \<Rightarrow> js_error + embedding" where
  "embedding_result outcome =
     (case outcome of
        Fetch_rejected e \<Rightarrow> Inl e
      | Json_rejected ok e \<Rightarrow> Inl e
      | Response_not_ok data \<Rightarrow>
          (case error_message data of
             Inl e \<Rightarrow> Inl e
           | Inr m \<Rightarrow> Inl (Error (or_failed m)))
      | Response_ok data \<Rightarrow>
          (case data of
             [] \<Rightarrow> Inl (TypeError ''Cannot read properties of undefined (reading embedding)'')
           | first # others \<Rightarrow> Inr first))"

definition embeddings_request :: "state \<Rightarrow> string \<Rightarrow> request" where
  "embeddings_request s text =
     Fetch_POST ''https://api.voyageai.com/v1/embeddings'' (voyageHeaders s) ''voyage-01'' text"

definition createEmbedding :: "network \<Rightarrow> string \<Rightarrow> state \<Rightarrow> (js_error + embedding) \<times> state" where
  "createEmbedding net text s =
     (let req = embeddings_request s text
      in (embedding_result (fetch net (requests s) req), s\<lparr>requests := requests s @ [req]\<rparr>))"

subsection \<open>Initialization\<close>

fun processRepositories ::
  "network \<Rightarrow> github_repo list \<Rightarrow> state \<Rightarrow> (js_error + unit) \<times> state" where
  "processRepositories net [] s = (Inr (), s)"
| "processRepositories net (repo # repos) s =
     (let keywords = extractKeywords repo;
          description = (case repo_description repo of None \<Rightarrow> [] | Some d \<Rightarrow> d)
      in case createEmbedding net
                (description @ '' '' @ array_join '' '' (map Some keywords)) s of
           (Inl e, s') \<Rightarrow> (Inl e, s')
         | (Inr emb, s') \<Rightarrow>
             (let data = \<lparr>description = description, keywords = keywords, embedding = emb\<rparr>
              in processRepositories net repos
                   (s'\<lparr>repositories := AList.update (repo_full_name repo) data (repositories s'),
                       assigned := assigned s' @ [(repo_full_name repo, data)]\<rparr>)))"

definition fetchUserRepositories :: "network \<Rightarrow> state \<Rightarrow> (js_error + unit) \<times> state" where
  "fetchUserRepositories net s =
     (let req = Repos_listForAuthenticatedUser (octokit_auth s);
          s' = s\<lparr>requests := requests s @ [req]\<rparr>
      in case octokit_repos net (requests s) req of
           Inl e \<Rightarrow> (Inl e, s')
         | Inr repos \<Rightarrow> processRepositories net repos s')"

definition fetchOrgRepositories ::
  "network \<Rightarrow> string \<Rightarrow> state \<Rightarrow> (js_error + unit) \<times> state" where
  "fetchOrgRepositories net orgName s =
     (let req = Repos_listForOrg (octokit_auth s) orgName 100;
          s' = s\<lparr>requests := requests s @ [req]\<rparr>
      in case octokit_repos net (requests s) req of
           Inl e \<Rightarrow> (Inl e, s')
         | Inr repos \<Rightarrow> processRepositories net repos s')"

text \<open>The loop over the organizations.\<close>

fun for_orgs :: "network \<Rightarrow> org list \<Rightarrow> state \<Rightarrow> (js_error + unit) \<times> state" where
  "for_orgs net [] s = (Inr (), s)"
| "for_orgs net (org # orgs) s =
     (case fetchOrgRepositories net (org_login org) s of
        (Inl e, s') \<Rightarrow> (Inl e, s')
      | (Inr u, s') \<Rightarrow> for_orgs net orgs s')"

definition initialize :: "network \<Rightarrow> state \<Rightarrow> (js_error + unit) \<times> state" where
  "initialize net s =
     (let req = Orgs_listForAuthenticatedUser (octokit_auth s);
          s0 = s\<lparr>requests := requests s @ [req]\<rparr>
      in case octokit_orgs net (requests s) req of
           Inl e \<Rightarrow> (Inl e, s0)
         | Inr orgs \<Rightarrow>
             (case fetchUserRepositories net s0 of
                (Inl e, s1) \<Rightarrow> (Inl e, s1)
              | (Inr u, s1) \<Rightarrow> for_orgs net orgs s1))"

subsection \<open>Ranking\<close>

record match =
  repo :: string
  similarity :: jsnum

text \<open>
  \<open>Array.prototype.sort\<close> with a comparison function. The sort is stable, and with a
  comparison that orders the elements consistently its result is the one stable
  ordering, which insertion from the right computes: an element moves behind the ones
  the comparison puts before it, that is, those with \<open>comparefn(x, y) > 0\<close>; a
  comparison that gives NaN counts as 0.
\<close>

fun sort_insert :: "('a \<Rightarrow> 'a \<Rightarrow> jsnum) \<Rightarrow> 'a \<Rightarrow> 'a list \<Rightarrow> 'a list" where
  "sort_insert comparefn x [] = [x]"
| "sort_insert comparefn x (y # ys) =
     (if js_less (Num 0) (comparefn x y) then y # sort_insert comparefn x ys
      else x # y # ys)"

definition Array_sort :: "('a \<Rightarrow> 'a \<Rightarrow> jsnum) \<Rightarrow> 'a list \<Rightarrow> 'a list" where
  "Array_sort comparefn xs = foldr (sort_insert comparefn) xs []"

text \<open>The array \<open>matches\<close> that the loop over \<open>Object.entries(this.repositories)\<close> builds.\<close>

definition matches_of :: "embedding \<Rightarrow> (string \<times> RepositoryRecord) list \<Rightarrow> match list" where
  "matches_of descriptionEmbedding entries =
     map (\<lambda>(name, data).
            \<lparr>repo = name,
             similarity = calculateCosineSimilarity descriptionEmbedding (embedding data)\<rparr>)
         entries"

definition findMatches :: "network \<Rightarrow> string \<Rightarrow> state \<Rightarrow> (js_error + string list) \<times> state" where
  "findMatches net text s =
     (case createEmbedding net text s of
        (Inl e, s') \<Rightarrow> (Inl e, s')
      | (Inr descriptionEmbedding, s') \<Rightarrow>
          (let matches = matches_of descriptionEmbedding (repositories s')
           in (Inr (map repo
                     (Array_sort (\<lambda>a b. jssub (similarity b) (similarity a)) matches)),
               s')))"

subsection \<open>The requests of a run\<close>

text \<open>
  The error a request ends in, if it fails, given the requests made before it: for the
  source-control API the error of the call, for the embeddings endpoint the error
  \<open>createEmbedding\<close> throws.
\<close>

definition request_error :: "network \<Rightarrow> request list \<Rightarrow> request \<Rightarrow> js_error option" where
  "request_error net before req =
     (case req of
        Orgs_listForAuthenticatedUser auth \<Rightarrow>
          (case octokit_orgs net before req of Inl e \<Rightarrow> Some e | Inr orgs \<Rightarrow> None)
      | Fetch_POST url headers model text \<Rightarrow>
          (case embedding_result (fetch net before req) of Inl e \<Rightarrow> Some e | Inr v \<Rightarrow> None)
      | other \<Rightarrow>
          (case octokit_repos net before req of Inl e \<Rightarrow> Some e | Inr repos \<Rightarrow> None))"

text \<open>Every request of \<open>reqs\<close>, made in this order after \<open>before\<close>, succeeds.\<close>

fun all_succeed :: "network \<Rightarrow> request list \<Rightarrow> request list \<Rightarrow> bool" where
  "all_succeed net before [] = True"
| "all_succeed net before (req # reqs) =
     (request_error net before req = None \<and> all_succeed net (before @ [req]) reqs)"

text \<open>
  A run from \<open>s\<close> to \<open>s'\<close> with result \<open>res\<close> sent the requests \<open>sent\<close>: they all
  succeeded when the run returned; when it threw, all but the last succeeded, the last
  failed, and its error is the one thrown.
\<close>

definition run_requests ::
  "network \<Rightarrow> state \<Rightarrow> js_error + 'a \<Rightarrow> state \<Rightarrow> request list \<Rightarrow> bool" where
  "run_requests net s res s' sent =
     (requests s' = requests s @ sent \<and>
      (case res of
         Inr v \<Rightarrow> all_succeed net (requests s) sent
       | Inl e \<Rightarrow>
           sent \<noteq> [] \<and> all_succeed net (requests s) (butlast sent) \<and>
           request_error net (requests s @ butlast sent) (last sent) = Some e))"

text \<open>
  A run from \<open>s\<close> to \<open>s'\<close> performed the assignments \<open>made\<close>: the mapping after it is
  the mapping before it with each of them made, in order, and none undone.
\<close>

definition run_assignments ::
  "state \<Rightarrow> state \<Rightarrow> (string \<times> RepositoryRecord) list \<Rightarrow> bool" where
  "run_assignments s s' made =
     (assigned s' = assigned s @ made \<and>
      repositories s' = fold (\<lambda>(name, data). AList.update name data) made (repositories s))"

subsection \<open>A router of four repositories\<close>

text \<open>
  A hand-made router for the examples: four repositories with known embeddings, two of
  them with the same one, and a world in which every request succeeds and every text
  embeds to the vector \<open>(1, 0, 0, 0)\<close>; and a world whose embeddings endpoint is down.
\<close>

definition example_record :: "embedding \<Rightarrow> RepositoryRecord" where
  "example_record v = \<lparr>description = ''d'', keywords = [''k''], embedding = v\<rparr>"

definition example_router :: state where
  "example_router =
     \<lparr>octokit_auth = ''token'',
      repositories =
        [(''octo/zero'', example_record [Num 0, Num 0, Num 0, Num 0]),
         (''octo/near'', example_record [Num 1, Num 1, Num 1, Num 1]),
         (''octo/same'', example_record [Num 2, Num 0, Num 0, Num 0]),
         (''octo/twin'', example_record [Num 1, Num 1, Num 1, Num 1])],
      voyageHeaders = [(''Authorization'', ''Bearer key''), (''Content-Type'', ''application/json'')],
      requests = [],
      assigned = []\<rparr>"

definition example_network :: network where
  "example_network =
     \<lparr>octokit_orgs = (\<lambda>before req. Inr []),
      octokit_repos = (\<lambda>before req. Inr []),
      fetch = (\<lambda>before req. Response_ok [[Num 1, Num 0, Num 0, Num 0]])\<rparr>"

definition failing_network :: "fetch_outcome \<Rightarrow> network" where
  "failing_network outcome =
     \<lparr>octokit_orgs = (\<lambda>before req. Inr []),
      octokit_repos = (\<lambda>before req. Inr []),
      fetch = (\<lambda>before req. outcome)\<rparr>"

text \<open>
  A world for a run that fails part of the way: one organization, two repositories in
  every listing, and an embeddings endpoint that answers the first request it gets and
  is unreachable from then on; and a router as the constructor leaves it.
\<close>

definition example_repo :: "string \<Rightarrow> github_repo" where
  "example_repo nm =
     \<lparr>repo_name = nm, repo_full_name = ''octo/'' @ nm, repo_description = None,
      repo_topics = None\<rparr>"

definition offline_network :: network where
  "offline_network =
     \<lparr>octokit_orgs = (\<lambda>before req. Inr [\<lparr>org_login = ''acme''\<rparr>]),
      octokit_repos = (\<lambda>before req. Inr [example_repo ''one'', example_repo ''two'']),
      fetch = (\<lambda>before req. if length before < 3 then Response_ok [[Num 1]]
                             else Fetch_rejected (External ''offline''))\<rparr>"

definition new_router :: state where
  "new_router =
     \<lparr>octokit_auth = ''token'', repositories = [],
      voyageHeaders = [(''Authorization'', ''Bearer key''), (''Content-Type'', ''application/json'')],
      requests = [], assigned = []\<rparr>"

section \<open>Properties of the rounding\<close>

lemma round_half_even_int: "round_half_even (of_int n) = n"
  by (simp add: round_half_even_def)

lemma round_half_even_ge: "of_int n \<le> y \<Longrightarrow> n \<le> round_half_even y"
proof -
  assume "of_int n \<le> y"
  then have "n \<le> \<lfloor>y\<rfloor>" by (simp add: le_floor_iff)
  then show ?thesis by (simp add: round_half_even_def Let_def)
qed

lemma round_half_even_le: "y \<le> of_int n \<Longrightarrow> round_half_even y \<le> n"
proof -
  assume a: "y \<le> of_int n"
  show ?thesis
  proof (cases "y = of_int n")
    case True
    then show ?thesis by (simp add: round_half_even_int)
  next
    case False
    with a have "y < of_int n" by simp
    then have "\<lfloor>y\<rfloor> < n" by (simp add: floor_less_iff)
    then show ?thesis by (simp add: round_half_even_def Let_def)
  qed
qed

lemma round_half_even_small: "\<bar>y\<bar> < 1 / 2 \<Longrightarrow> round_half_even y = 0"
proof -
  assume a: "\<bar>y\<bar> < 1 / 2"
  show ?thesis
  proof (cases "0 \<le> y")
    case True
    with a have "\<lfloor>y\<rfloor> = 0" by (simp add: floor_eq_iff)
    with a True show ?thesis by (simp add: round_half_even_def Let_def)
  next
    case False
    with a have "\<lfloor>y\<rfloor> = - 1" by (simp add: floor_eq_iff)
    with a False show ?thesis by (simp add: round_half_even_def Let_def)
  qed
qed










lemma to_double_tiny:
  assumes small: "\<bar>x\<bar> < 2 powr (- 1075)"
  shows "to_double x = Num 0"
proof (cases "x = 0")
  case True
  then show ?thesis by (simp add: to_double_def)
next
  case False
  have "log 2 \<bar>x\<bar> < - 1075"
    using small False by (simp add: log_less_iff)
  then have "\<lfloor>log 2 \<bar>x\<bar>\<rfloor> < - 1075" by (simp add: floor_less_iff)
  then have "\<lfloor>log 2 \<bar>x\<bar>\<rfloor> - 52 \<le> - 1074" by linarith
  then have e: "ulp_exponent x = - 1074" by (simp only: ulp_exponent_def max_absorb2)
  have "(2::real) powr (- 1074) = 2 powr (- 1075 + 1)" by simp
  also have "\<dots> = 2 powr (- 1075) * 2 powr 1" by (rule powr_add)
  finally have half: "(2::real) powr (- 1075) = 2 powr (- 1074) / 2" by simp
  have "\<bar>x / 2 powr (- 1074)\<bar> < 1 / 2"
    using small by (simp add: half abs_divide pos_divide_less_eq)
  then have "round_half_even (x / 2 powr (- 1074)) = 0"
    by (rule round_half_even_small)
  then show ?thesis using False by (simp add: to_double_def Let_def e)
qed

lemma to_double_dyadic:
  assumes m: "\<bar>m\<bar> < 2 ^ 53" and k1: "- 1074 \<le> k" and k2: "k \<le> 971"
  shows "to_double (of_int m * 2 powr of_int k) = Num (of_int m * 2 powr of_int k)"
proof (cases "m = 0")
  case True
  then show ?thesis by (simp add: to_double_def)
next
  case False
  define x :: real where "x = of_int m * 2 powr of_int k"
  define e where "e = ulp_exponent x"
  have nz: "x \<noteq> 0" using False by (simp add: x_def)
  have am: "\<bar>of_int m :: real\<bar> < 2 ^ 53"
    using m by (metis of_int_abs of_int_less_numeral_power_cancel_iff)
  have absx: "\<bar>x\<bar> = \<bar>of_int m\<bar> * 2 powr of_int k"
    by (simp add: x_def abs_mult)
  have "\<bar>x\<bar> < 2 ^ 53 * 2 powr of_int k"
    unfolding absx using am by (rule mult_strict_right_mono) simp
  also have "\<dots> = 2 powr (53 + of_int k)"
    by (simp add: powr_add)
  finally have lt: "\<bar>x\<bar> < 2 powr (53 + of_int k)" .
  have "log 2 \<bar>x\<bar> < 53 + of_int k"
    using lt nz by (subst log_less_iff) simp_all
  then have "log 2 \<bar>x\<bar> < of_int (53 + k)" by simp
  then have "\<lfloor>log 2 \<bar>x\<bar>\<rfloor> < 53 + k" by (simp only: floor_less_iff)
  then have ek: "e \<le> k"
    using k1 by (simp add: e_def ulp_exponent_def)
  have "(2::real) powr of_int k = 2 powr (of_int (k - e) + of_int e)" by simp
  also have "\<dots> = 2 powr of_int (k - e) * 2 powr of_int e"
    by (simp only: powr_add)
  also have "(2::real) powr of_int (k - e) = 2 powr real (nat (k - e))"
    using ek by simp
  also have "\<dots> = of_int (2 ^ nat (k - e))"
    by (simp add: powr_realpow)
  finally have split: "(2::real) powr of_int k = of_int (2 ^ nat (k - e)) * 2 powr of_int e" .
  have "x / 2 powr of_int e = of_int (m * 2 ^ nat (k - e))"
    by (simp add: x_def split)
  then have r: "round_half_even (x / 2 powr of_int e) = m * 2 ^ nat (k - e)"
    by (simp only: round_half_even_int)
  have value_x: "of_int (m * 2 ^ nat (k - e)) * 2 powr of_int e = x"
    by (simp add: x_def split)
  have "2 powr (53 + of_int k) \<le> (2::real) powr 1024"
    using k2 by (subst powr_le_cancel_iff) simp_all
  with lt have "\<bar>x\<bar> < 2 powr 1024" by simp
  also have "(2::real) powr 1024 = 2 ^ 1024" by (rule powr_numeral) simp
  finally have small: "\<not> 2 ^ 1024 \<le> \<bar>x\<bar>" by simp
  have "to_double x = Num x"
    unfolding to_double_def Let_def e_def [symmetric] r value_x using nz small by simp
  then show ?thesis by (simp only: x_def)
qed

lemma to_double_huge:
  assumes big: "2 ^ 1024 \<le> \<bar>x\<bar>"
  shows "to_double x = signed_inf (0 < x)"
proof -
  have nz: "x \<noteq> 0" using big by auto
  let ?e = "ulp_exponent x"
  let ?m = "round_half_even (x / 2 powr of_int ?e)"
  have big': "(2::real) powr 1024 \<le> \<bar>x\<bar>" using big by (simp add: powr_numeral)
  have "1024 \<le> log 2 \<bar>x\<bar>"
    using big' nz by (subst le_log_iff) simp_all
  then have "1024 \<le> \<lfloor>log 2 \<bar>x\<bar>\<rfloor>" by (simp add: le_floor_iff)
  then have e: "?e = \<lfloor>log 2 \<bar>x\<bar>\<rfloor> - 52" by (simp add: ulp_exponent_def)
  have "of_int \<lfloor>log 2 \<bar>x\<bar>\<rfloor> \<le> log 2 \<bar>x\<bar>" by simp
  then have "2 powr of_int \<lfloor>log 2 \<bar>x\<bar>\<rfloor> \<le> 2 powr log 2 \<bar>x\<bar>"
    by (simp only: powr_le_cancel_iff)
  also have "\<dots> = \<bar>x\<bar>" using nz by simp
  finally have fl: "2 powr of_int \<lfloor>log 2 \<bar>x\<bar>\<rfloor> \<le> \<bar>x\<bar>" .
  have "(2::real) powr of_int \<lfloor>log 2 \<bar>x\<bar>\<rfloor> = 2 powr (52 + of_int ?e)"
    by (simp add: e)
  also have "\<dots> = 2 ^ 52 * 2 powr of_int ?e"
    by (simp add: powr_add powr_numeral)
  finally have y: "of_int (2 ^ 52) \<le> \<bar>x\<bar> / 2 powr of_int ?e"
    using fl by (simp add: le_divide_eq)
  have absm: "2 ^ 52 \<le> \<bar>?m\<bar>"
  proof (cases "0 < x")
    case True
    with y have "of_int (2 ^ 52) \<le> x / 2 powr of_int ?e" by simp
    then have "2 ^ 52 \<le> ?m" by (rule round_half_even_ge)
    then show ?thesis by simp
  next
    case False
    with nz have neg: "x < 0" by simp
    with y have "x / 2 powr of_int ?e \<le> of_int (- (2 ^ 52))"
      by (simp add: abs_if field_simps)
    then have "?m \<le> - (2 ^ 52)" by (rule round_half_even_le)
    then show ?thesis by simp
  qed
  then have "(2::real) ^ 52 \<le> \<bar>of_int ?m\<bar>"
    by (metis of_int_abs of_int_le_iff of_int_numeral of_int_power)
  then have "2 ^ 52 * 2 powr of_int ?e \<le> \<bar>of_int ?m\<bar> * (2::real) powr of_int ?e"
    by (simp add: mult_right_mono)
  then have "2 powr of_int \<lfloor>log 2 \<bar>x\<bar>\<rfloor> \<le> \<bar>of_int ?m * (2::real) powr of_int ?e\<bar>"
    by (simp add: e powr_diff powr_numeral abs_mult)
  moreover have "(2::real) powr 1024 \<le> 2 powr of_int \<lfloor>log 2 \<bar>x\<bar>\<rfloor>"
    using \<open>1024 \<le> \<lfloor>log 2 \<bar>x\<bar>\<rfloor>\<close> by (subst powr_le_cancel_iff) simp_all
  ultimately have "2 ^ 1024 \<le> \<bar>of_int ?m * (2::real) powr of_int ?e\<bar>"
    by (simp add: powr_numeral del: abs_mult)
  then show ?thesis using nz by (simp add: to_double_def Let_def del: abs_mult)
qed

lemma to_double_zero: "to_double 0 = Num 0"
  by (simp add: to_double_def)

lemma to_double_int: "\<bar>n\<bar> < 2 ^ 53 \<Longrightarrow> to_double (of_int n) = Num (of_int n)"
  using to_double_dyadic [of n 0] by simp

lemma to_double_one: "to_double 1 = Num 1"
  using to_double_int [of 1] by simp

lemma to_double_numeral:
  "(numeral w :: int) < 2 ^ 53 \<Longrightarrow> to_double (numeral w) = Num (numeral w)"
  using to_double_int [of "numeral w"] by simp

lemma to_double_half: "to_double (1 / 2) = Num (1 / 2)"
  using to_double_dyadic [of 1 "- 1"] by (simp add: powr_minus)

text \<open>
  A value within half a unit in the last place of a double rounds to it. The square
  root of 2, its square and the quotient of 2 by that square round as follows.
\<close>

lemma round_half_even_near:
  assumes "\<bar>y - of_int m\<bar> < 1 / 2"
  shows "round_half_even y = m"
proof (cases "of_int m \<le> y")
  case True
  have "\<lfloor>y\<rfloor> = m" using assms True by linarith
  with assms True show ?thesis by (simp add: round_half_even_def Let_def)
next
  case False
  have f: "\<lfloor>y\<rfloor> = m - 1" using assms False by linarith
  have "1 / 2 < y - of_int (m - 1)" using assms False by simp
  with f show ?thesis by (simp add: round_half_even_def Let_def)
qed

lemma ulp_exponent_binade:
  assumes "2 powr of_int n \<le> \<bar>x\<bar>" and "\<bar>x\<bar> < 2 powr of_int (n + 1)" and "- 1022 \<le> n"
  shows "ulp_exponent x = n - 52"
proof -
  have pos: "0 < \<bar>x\<bar>" using assms(1) by (smt (verit) powr_gt_zero)
  have "of_int n \<le> log 2 \<bar>x\<bar>" using assms(1) pos by (subst le_log_iff) simp_all
  moreover have "log 2 \<bar>x\<bar> < of_int (n + 1)" using assms(2) pos by (subst log_less_iff) simp_all
  ultimately have "\<lfloor>log 2 \<bar>x\<bar>\<rfloor> = n" by (simp add: floor_eq_iff)
  with assms(3) show ?thesis by (simp add: ulp_exponent_def)
qed

lemma to_double_near:
  assumes lo: "2 powr of_int n \<le> \<bar>x\<bar>" and hi: "\<bar>x\<bar> < 2 powr of_int (n + 1)"
    and n: "- 1022 \<le> n"
    and near: "\<bar>x / 2 powr of_int (n - 52) - of_int m\<bar> < 1 / 2"
    and fin: "\<bar>of_int m * 2 powr of_int (n - 52)\<bar> < (2::real) ^ 1024"
  shows "to_double x = Num (of_int m * 2 powr of_int (n - 52))"
proof -
  have nz: "x \<noteq> 0" using lo by (smt (verit) powr_gt_zero)
  have e: "ulp_exponent x = n - 52" using lo hi n by (rule ulp_exponent_binade)
  have r: "round_half_even (x / 2 powr of_int (n - 52)) = m"
    using near by (rule round_half_even_near)
  show ?thesis
    unfolding to_double_def Let_def e r using nz fin by simp
qed

lemma sqrt_two: "to_double (sqrt 2) = Num (6369051672525773 / 2 ^ 52)"
proof -
  define c :: real where "c = 2 ^ 52"
  have cpos: "0 < c" by (simp add: c_def)
  have "(6369051672525773 - 1 / 2) / c < sqrt 2"
    unfolding c_def by (rule real_less_rsqrt) (simp add: power2_eq_square)
  then have lo: "6369051672525773 - 1 / 2 < sqrt 2 * c"
    using cpos by (simp only: pos_divide_less_eq)
  have "sqrt 2 < (6369051672525773 + 1 / 2) / c"
    unfolding c_def by (rule real_less_lsqrt) (simp_all add: power2_eq_square)
  then have hi: "sqrt 2 * c < 6369051672525773 + 1 / 2"
    using cpos by (simp only: pos_less_divide_eq)
  have p: "(2::real) powr of_int (0 - 52) = 1 / c"
    by (simp add: c_def powr_minus divide_simps)
  have a: "2 powr of_int 0 \<le> \<bar>sqrt 2\<bar>" by simp
  have "sqrt 2 < 2" by (rule real_less_lsqrt) simp_all
  then have b: "\<bar>sqrt 2\<bar> < 2 powr of_int (0 + 1)" by simp
  have "\<bar>sqrt 2 * c - 6369051672525773\<bar> < 1 / 2"
    using lo hi by (simp only: abs_less_iff) linarith
  then have c: "\<bar>sqrt 2 / 2 powr of_int (0 - 52) - of_int 6369051672525773\<bar> < 1 / 2"
    unfolding p by simp
  have d: "\<bar>of_int 6369051672525773 * 2 powr of_int (0 - 52)\<bar> < (2::real) ^ 1024"
    unfolding p c_def by simp
  from to_double_near [OF a b _ c d] show ?thesis
    unfolding p c_def by simp
qed

lemma product_sqrt_two:
  "to_double (6369051672525773 / 2 ^ 52 * (6369051672525773 / 2 ^ 52)) = Num (2 + 1 / 2 ^ 51)"
proof -
  define x :: real where "x = 6369051672525773 / 2 ^ 52 * (6369051672525773 / 2 ^ 52)"
  have p: "(2::real) powr of_int (1 - 52) = 1 / 2 ^ 51"
    by (simp add: powr_minus divide_simps)
  have a: "2 powr of_int 1 \<le> \<bar>x\<bar>" by (simp add: x_def)
  have b: "\<bar>x\<bar> < 2 powr of_int (1 + 1)" by (simp add: x_def)
  have c: "\<bar>x / 2 powr of_int (1 - 52) - of_int 4503599627370497\<bar> < 1 / 2"
    unfolding p by (simp add: x_def abs_less_iff field_simps)
  have d: "\<bar>of_int 4503599627370497 * 2 powr of_int (1 - 52)\<bar> < (2::real) ^ 1024"
    unfolding p by simp
  from to_double_near [OF a b _ c d] show ?thesis
    unfolding p x_def by (simp add: field_simps)
qed

lemma quotient_sqrt_two:
  "to_double (2 / (2 + 1 / 2 ^ 51)) = Num (1 - 1 / 2 ^ 52)"
proof -
  define x :: real where "x = 2 / (2 + 1 / 2 ^ 51)"
  have p: "(2::real) powr of_int (- 1 - 52) = 1 / 2 ^ 53"
    by (simp add: powr_minus divide_simps)
  have q: "(2::real) powr of_int (- 1) = 1 / 2"
    by (simp add: powr_minus)
  have a: "2 powr of_int (- 1) \<le> \<bar>x\<bar>" unfolding q by (simp add: x_def field_simps)
  have b: "\<bar>x\<bar> < 2 powr of_int (- 1 + 1)" by (simp add: x_def field_simps)
  have c: "\<bar>x / 2 powr of_int (- 1 - 52) - of_int 9007199254740990\<bar> < 1 / 2"
    unfolding p by (simp add: x_def abs_less_iff field_simps)
  have d: "\<bar>of_int 9007199254740990 * 2 powr of_int (- 1 - 52)\<bar> < (2::real) ^ 1024"
    unfolding p by simp
  from to_double_near [OF a b _ c d] show ?thesis
    unfolding p x_def by (simp add: field_simps)
qed

section \<open>Properties of the cosine similarity\<close>

lemma jsmul_commute: "jsmul x y = jsmul y x"
  by (cases x; cases y) (simp_all add: mult.commute)

lemma cosine_loop_swap:
  "length embedding1 = length embedding2 \<Longrightarrow>
   cosine_loop embedding1 embedding2 i (d, n1, n2) = (d', n1', n2') \<Longrightarrow>
   cosine_loop embedding2 embedding1 i (d, n2, n1) = (d', n2', n1')"
proof (induction embedding1 embedding2 i "(d, n1, n2)" arbitrary: d n1 n2
    rule: cosine_loop.induct)
  case (1 e1 e2 i d n1 n2)
  show ?case
  proof (cases "i < length e1")
    case True
    with "1.prems" have step: "cosine_loop e1 e2 (Suc i)
             (jsadd d (jsmul (at_index e1 i) (at_index e2 i)),
              jsadd n1 (jsmul (at_index e1 i) (at_index e1 i)),
              jsadd n2 (jsmul (at_index e2 i) (at_index e2 i))) = (d', n1', n2')"
      by (simp add: cosine_loop.simps [of e1 e2 i])
    have comm: "jsmul (at_index e2 i) (at_index e1 i) = jsmul (at_index e1 i) (at_index e2 i)"
      by (rule jsmul_commute)
    have "cosine_loop e2 e1 i (d, n2, n1) = cosine_loop e2 e1 (Suc i)
             (jsadd d (jsmul (at_index e1 i) (at_index e2 i)),
              jsadd n2 (jsmul (at_index e2 i) (at_index e2 i)),
              jsadd n1 (jsmul (at_index e1 i) (at_index e1 i)))"
      using True "1.prems"(1) by (simp add: cosine_loop.simps [of e2 e1 i] comm)
    with "1.hyps" [OF True "1.prems"(1) step] show ?thesis
      by simp
  next
    case False
    with "1.prems" show ?thesis
      by (simp add: cosine_loop.simps [of e1 e2 i] cosine_loop.simps [of e2 e1 i])
  qed
qed

lemma zero_or_nan_jsmul: "zero_or_nan x \<Longrightarrow> zero_or_nan (jsmul x y)"
  by (cases y) (auto simp: zero_or_nan_def to_double_zero)

lemma zero_or_nan_jsmul2: "zero_or_nan y \<Longrightarrow> zero_or_nan (jsmul x y)"
  by (cases x) (auto simp: zero_or_nan_def to_double_zero)

lemma zero_or_nan_jsadd: "zero_or_nan x \<Longrightarrow> zero_or_nan y \<Longrightarrow> zero_or_nan (jsadd x y)"
  by (auto simp: zero_or_nan_def to_double_zero)

lemma zero_or_nan_sqrt: "zero_or_nan x \<Longrightarrow> zero_or_nan (Math_sqrt x)"
  by (auto simp: zero_or_nan_def to_double_zero)

lemma zero_or_nan_jsdiv: "zero_or_nan x \<Longrightarrow> zero_or_nan y \<Longrightarrow> jsdiv x y = NaN"
  by (auto simp: zero_or_nan_def)

lemma zero_or_nan_at_index: "\<forall>x\<in>set xs. x = Num 0 \<Longrightarrow> zero_or_nan (at_index xs i)"
  by (simp add: at_index_def zero_or_nan_def)

text \<open>
  While the first vector is all zero, the dot product and its norm stay zero or NaN;
  likewise for the second vector (NaN comes in when the other vector has an entry that
  is not finite, or the second vector is the shorter one).
\<close>

lemma cosine_loop_zero1:
  "\<forall>x\<in>set e1. x = Num 0 \<Longrightarrow> zero_or_nan d \<Longrightarrow> zero_or_nan n1 \<Longrightarrow>
   cosine_loop e1 e2 i (d, n1, n2) = (d', n1', n2') \<Longrightarrow> zero_or_nan d' \<and> zero_or_nan n1'"
proof (induction e1 e2 i "(d, n1, n2)" arbitrary: d n1 n2 rule: cosine_loop.induct)
  case (1 e1 e2 i d n1 n2)
  show ?case
  proof (cases "i < length e1")
    case True
    let ?x = "at_index e1 i"
    have zx: "zero_or_nan ?x" using "1.prems"(1) by (rule zero_or_nan_at_index)
    from True "1.prems"(4) have step: "cosine_loop e1 e2 (Suc i)
             (jsadd d (jsmul ?x (at_index e2 i)), jsadd n1 (jsmul ?x ?x),
              jsadd n2 (jsmul (at_index e2 i) (at_index e2 i))) = (d', n1', n2')"
      by (simp add: cosine_loop.simps [of e1 e2 i])
    show ?thesis
      by (rule "1.hyps" [OF True "1.prems"(1) _ _ step])
         (simp_all add: zero_or_nan_jsadd zero_or_nan_jsmul zx "1.prems")
  next
    case False
    with "1.prems" show ?thesis
      by (simp add: cosine_loop.simps [of e1 e2 i])
  qed
qed

lemma cosine_loop_zero2:
  "\<forall>x\<in>set e2. x = Num 0 \<Longrightarrow> zero_or_nan d \<Longrightarrow> zero_or_nan n2 \<Longrightarrow>
   cosine_loop e1 e2 i (d, n1, n2) = (d', n1', n2') \<Longrightarrow> zero_or_nan d' \<and> zero_or_nan n2'"
proof (induction e1 e2 i "(d, n1, n2)" arbitrary: d n1 n2 rule: cosine_loop.induct)
  case (1 e1 e2 i d n1 n2)
  show ?case
  proof (cases "i < length e1")
    case True
    let ?y = "at_index e2 i"
    have zy: "zero_or_nan ?y" using "1.prems"(1) by (rule zero_or_nan_at_index)
    from True "1.prems"(4) have step: "cosine_loop e1 e2 (Suc i)
             (jsadd d (jsmul (at_index e1 i) ?y),
              jsadd n1 (jsmul (at_index e1 i) (at_index e1 i)),
              jsadd n2 (jsmul ?y ?y)) = (d', n1', n2')"
      by (simp add: cosine_loop.simps [of e1 e2 i])
    show ?thesis
      by (rule "1.hyps" [OF True "1.prems"(1) _ _ step])
         (simp_all add: zero_or_nan_jsadd zero_or_nan_jsmul2 zy "1.prems")
  next
    case False
    with "1.prems" show ?thesis
      by (simp add: cosine_loop.simps [of e1 e2 i])
  qed
qed

lemma cosine_zero_vector:
  assumes "(\<forall>x\<in>set e1. x = Num 0) \<or> (\<forall>x\<in>set e2. x = Num 0)"
  shows "calculateCosineSimilarity e1 e2 = Num 0"
proof -
  obtain d n1 n2 where run: "cosine_loop e1 e2 0 (Num 0, Num 0, Num 0) = (d, n1, n2)"
    by (cases "cosine_loop e1 e2 0 (Num 0, Num 0, Num 0)") auto
  have z0: "zero_or_nan (Num 0)" by (simp add: zero_or_nan_def)
  from assms have "zero_or_nan d \<and> (zero_or_nan n1 \<or> zero_or_nan n2)"
    using cosine_loop_zero1 [OF _ z0 z0 run] cosine_loop_zero2 [OF _ z0 z0 run] by blast
  then have "zero_or_nan d" and "zero_or_nan (jsmul (Math_sqrt n1) (Math_sqrt n2))"
    using zero_or_nan_jsmul [OF zero_or_nan_sqrt, of n1 "Math_sqrt n2"]
      zero_or_nan_jsmul2 [OF zero_or_nan_sqrt, of n2 "Math_sqrt n1"] by blast+
  then have "jsdiv d (jsmul (Math_sqrt n1) (Math_sqrt n2)) = NaN"
    by (rule zero_or_nan_jsdiv)
  with run show ?thesis
    by (simp add: calculateCosineSimilarity_def or_zero_def)
qed

lemma or_zero_not_NaN: "or_zero x \<noteq> NaN"
  by (cases x) (simp_all add: or_zero_def)

lemma cosine_not_NaN: "calculateCosineSimilarity a b \<noteq> NaN"
  by (simp add: calculateCosineSimilarity_def or_zero_not_NaN split: prod.splits)

text \<open>The loop computes the three rounded sums, each from its accumulator.\<close>

lemma cosine_loop_sums:
  "cosine_loop e1 e2 i (d, n1, n2) =
     (foldl jsadd d (map (\<lambda>j. jsmul (at_index e1 j) (at_index e2 j)) [i..<length e1]),
      foldl jsadd n1 (map (\<lambda>j. jsmul (at_index e1 j) (at_index e1 j)) [i..<length e1]),
      foldl jsadd n2 (map (\<lambda>j. jsmul (at_index e2 j) (at_index e2 j)) [i..<length e1]))"
proof (induction e1 e2 i "(d, n1, n2)" arbitrary: d n1 n2 rule: cosine_loop.induct)
  case (1 e1 e2 i d n1 n2)
  show ?case
  proof (cases "i < length e1")
    case True
    then have range: "[i..<length e1] = i # [Suc i..<length e1]"
      by (rule upt_conv_Cons)
    show ?thesis
      using True "1.hyps" [OF True]
      by (simp add: cosine_loop.simps [of e1 e2 i] range)
  next
    case False
    then show ?thesis
      by (simp add: cosine_loop.simps [of e1 e2 i])
  qed
qed

lemma cosine_rounded:
  "calculateCosineSimilarity e1 e2 =
     or_zero (jsdiv (rounded_dot (length e1) e1 e2)
                (jsmul (Math_sqrt (rounded_dot (length e1) e1 e1))
                       (Math_sqrt (rounded_dot (length e1) e2 e2))))"
  by (simp add: calculateCosineSimilarity_def cosine_loop_sums rounded_dot_def)

text \<open>
  Claim C1, as amended. \<open>calculateCosineSimilarity\<close> never returns NaN. When one of the
  two vectors is all zero it returns 0, whatever the other vector holds and whatever the
  two lengths are. In every case it returns the quotient, as the doubles compute it, of
  the rounded dot product by the product of the two rounded magnitudes, over the
  indices of the first vector, and 0 in place of a quotient that is NaN or zero.
\<close>

theorem calculateCosineSimilarity_value:
  "calculateCosineSimilarity e1 e2 \<noteq> NaN
   \<and> ((\<forall>x\<in>set e1. x = Num 0) \<or> (\<forall>x\<in>set e2. x = Num 0) \<longrightarrow>
        calculateCosineSimilarity e1 e2 = Num 0)
   \<and> calculateCosineSimilarity e1 e2 =
       or_zero (jsdiv (rounded_dot (length e1) e1 e2)
                  (jsmul (Math_sqrt (rounded_dot (length e1) e1 e1))
                         (Math_sqrt (rounded_dot (length e1) e2 e2))))"
  using cosine_not_NaN [of e1 e2] cosine_zero_vector [of e1 e2] cosine_rounded [of e1 e2]
  by blast

lemma example_similarities:
  "calculateCosineSimilarity [Num 1, Num 0, Num 0, Num 0] [Num 0, Num 0, Num 0, Num 0] = Num 0"
  "calculateCosineSimilarity [Num 1, Num 0, Num 0, Num 0] [Num 1, Num 1, Num 1, Num 1] = Num (1 / 2)"
  "calculateCosineSimilarity [Num 1, Num 0, Num 0, Num 0] [Num 2, Num 0, Num 0, Num 0] = Num 1"
  by (simp_all add: calculateCosineSimilarity_def cosine_loop.simps at_index_def or_zero_def
      to_double_zero to_double_one to_double_numeral to_double_half)

theorem calculateCosineSimilarity_value_witness:
  "calculateCosineSimilarity [Num 0, Num 0] [Num 1, Num 2] = Num 0
   \<and> or_zero
        (jsdiv
          (rounded_dot (length [Num 1, Num 0, Num 0, Num 0])
             [Num 1, Num 0, Num 0, Num 0] [Num 1, Num 1, Num 1, Num 1])
          (jsmul
            (Math_sqrt
              (rounded_dot (length [Num 1, Num 0, Num 0, Num 0])
                 [Num 1, Num 0, Num 0, Num 0] [Num 1, Num 0, Num 0, Num 0]))
            (Math_sqrt
              (rounded_dot (length [Num 1, Num 0, Num 0, Num 0])
                 [Num 1, Num 1, Num 1, Num 1] [Num 1, Num 1, Num 1, Num 1]))))
       = Num (1 / 2)"
proof -
  have zero: "calculateCosineSimilarity [Num 0, Num 0] [Num 1, Num 2] = Num 0"
    using calculateCosineSimilarity_value [of "[Num 0, Num 0]" "[Num 1, Num 2]"] by simp
  have eq: "calculateCosineSimilarity [Num 1, Num 0, Num 0, Num 0] [Num 1, Num 1, Num 1, Num 1] =
      or_zero
        (jsdiv
          (rounded_dot (length [Num 1, Num 0, Num 0, Num 0])
             [Num 1, Num 0, Num 0, Num 0] [Num 1, Num 1, Num 1, Num 1])
          (jsmul
            (Math_sqrt
              (rounded_dot (length [Num 1, Num 0, Num 0, Num 0])
                 [Num 1, Num 0, Num 0, Num 0] [Num 1, Num 0, Num 0, Num 0]))
            (Math_sqrt
              (rounded_dot (length [Num 1, Num 0, Num 0, Num 0])
                 [Num 1, Num 1, Num 1, Num 1] [Num 1, Num 1, Num 1, Num 1]))))"
    by (rule calculateCosineSimilarity_value [THEN conjunct2, THEN conjunct2])
  show ?thesis
    unfolding eq [symmetric] using zero example_similarities(2) by (rule conjI)
qed

lemma self_similarity:
  "calculateCosineSimilarity [Num 1, Num 1] [Num 1, Num 1] = Num (1 - 1 / 2 ^ 52)"
proof -
  define r :: real where "r = 6369051672525773 / 2 ^ 52"
  define w :: real where "w = 2 + 1 / 2 ^ 51"
  have root: "to_double (sqrt 2) = Num r"
    by (simp only: sqrt_two r_def)
  have prod: "to_double (r * r) = Num w"
    by (simp only: product_sqrt_two r_def w_def)
  have quot: "to_double (2 / w) = Num (1 - 1 / 2 ^ 52)"
    by (simp only: quotient_sqrt_two w_def)
  have w: "w \<noteq> 0" by (simp add: w_def)
  show ?thesis
    using w
    by (simp add: calculateCosineSimilarity_def cosine_loop.simps at_index_def or_zero_def
        to_double_zero to_double_one to_double_numeral root prod quot)
qed

text \<open>
  The claim as it was stated fails on doubles. For the vector \<open>(1, 1)\<close> against itself
  the result is \<open>1 - 2 ^ -52\<close>, the double below 1, where the exact quotient is 1. The
  square of \<open>2 ^ 600\<close> overflows: for the vector \<open>(2 ^ 600)\<close> against itself the dot
  product and both norms are infinite, the quotient is NaN and the result is 0, where
  the exact quotient is 1. The square of \<open>2 ^ -600\<close> underflows: for \<open>(2 ^ -600)\<close>
  against \<open>(1)\<close> the first norm is 0 and the result is \<open>Infinity\<close>, where the exact
  quotient is 1 again.
\<close>

theorem calculateCosineSimilarity_rounding:
  "calculateCosineSimilarity [Num 1, Num 1] [Num 1, Num 1] = Num (1 - 1 / 2 ^ 52)
   \<and> (1 * 1 + 1 * 1) / (sqrt (1 * 1 + 1 * 1) * sqrt (1 * 1 + 1 * 1)) = (1::real)
   \<and> calculateCosineSimilarity [Num (2 ^ 600)] [Num (2 ^ 600)] = Num 0
   \<and> (2 ^ 600 * 2 ^ 600) / (sqrt (2 ^ 600 * 2 ^ 600) * sqrt (2 ^ 600 * 2 ^ 600)) = (1::real)
   \<and> calculateCosineSimilarity [Num (1 / 2 ^ 600)] [Num 1] = PInf
   \<and> (1 / 2 ^ 600 * 1) / (sqrt (1 / 2 ^ 600 * (1 / 2 ^ 600)) * sqrt (1 * 1)) = (1::real)"
proof -
  define h :: real where "h = 2 ^ 600"
  define t :: real where "t = 1 / 2 ^ 600"
  have hpos: "0 < h" by (simp add: h_def)
  have tpos: "0 < t" by (simp add: t_def)
  have hh: "to_double (h * h) = PInf"
    using to_double_huge [of "h * h"] by (simp add: h_def signed_inf_def)
  have "\<bar>t * t\<bar> < 2 powr (- 1075)"
    by (simp add: t_def powr_minus divide_simps)
  then have tt: "to_double (t * t) = Num 0"
    by (rule to_double_tiny)
  have "of_int 1 * (2::real) powr of_int (- 600) = t"
    by (simp add: t_def powr_minus divide_simps)
  then have t1: "to_double t = Num t"
    using to_double_dyadic [of 1 "- 600"] by simp
  have big: "calculateCosineSimilarity [Num h] [Num h] = Num 0"
    by (simp add: calculateCosineSimilarity_def cosine_loop.simps at_index_def or_zero_def hh)
  have small: "calculateCosineSimilarity [Num t] [Num 1] = PInf"
    using tpos
    by (simp add: calculateCosineSimilarity_def cosine_loop.simps at_index_def or_zero_def
        tt t1 to_double_zero to_double_one signed_inf_def)
  have exact_h: "(h * h) / (sqrt (h * h) * sqrt (h * h)) = 1"
    using hpos by simp
  have exact_t: "(t * 1) / (sqrt (t * t) * sqrt (1 * 1)) = 1"
    using tpos by simp
  have exact_1: "(1 * 1 + 1 * 1) / (sqrt (1 * 1 + 1 * 1) * sqrt (1 * 1 + 1 * 1)) = (1::real)"
    by simp
  from self_similarity exact_1 big exact_h small exact_t show ?thesis
    by (simp only: h_def t_def)
qed

text \<open>
  Claim C6. On two vectors of one length, whatever their entries,
  \<open>calculateCosineSimilarity a b\<close> equals \<open>calculateCosineSimilarity b a\<close>.
\<close>

theorem calculateCosineSimilarity_symmetric:
  assumes len: "length a = length b"
  shows "calculateCosineSimilarity a b = calculateCosineSimilarity b a"
proof -
  obtain d n1 n2 where run: "cosine_loop a b 0 (Num 0, Num 0, Num 0) = (d, n1, n2)"
    by (cases "cosine_loop a b 0 (Num 0, Num 0, Num 0)") auto
  have comm: "jsmul (Math_sqrt n2) (Math_sqrt n1) = jsmul (Math_sqrt n1) (Math_sqrt n2)"
    by (rule jsmul_commute)
  from cosine_loop_swap [OF len run] run show ?thesis
    by (simp add: calculateCosineSimilarity_def comm)
qed

theorem calculateCosineSimilarity_symmetric_witness:
  "calculateCosineSimilarity [Num 1, Num 0, Num 0, Num 0] [Num 1, Num 1, Num 1, Num 1] =
   calculateCosineSimilarity [Num 1, Num 1, Num 1, Num 1] [Num 1, Num 0, Num 0, Num 0]
   \<and> calculateCosineSimilarity [Num 1, Num 1, Num 1, Num 1] [Num 1, Num 0, Num 0, Num 0] =
       Num (1 / 2)"
  using calculateCosineSimilarity_symmetric
    [of "[Num 1, Num 0, Num 0, Num 0]" "[Num 1, Num 1, Num 1, Num 1]"]
    example_similarities(2)
  by simp

section \<open>Properties of the keyword extraction\<close>

lemma set_fold_Set_add: "set (fold Set_add xs ks) = set ks \<union> set xs"
  by (induction xs arbitrary: ks) (auto simp: Set_add_def)

lemma distinct_fold_Set_add: "distinct ks \<Longrightarrow> distinct (fold Set_add xs ks)"
  by (induction xs arbitrary: ks) (auto simp: Set_add_def)

lemma dropWhile_all: "\<forall>x\<in>set xs. P x \<Longrightarrow> dropWhile P xs = []"
  by simp

lemma takeWhile_all: "\<forall>x\<in>set xs. P x \<Longrightarrow> takeWhile P xs = xs"
  by simp

lemma tokens_no_space:
  assumes "s \<noteq> []" and "\<forall>c\<in>set s. \<not> is_white_space c"
  shows "tokens s = [s]"
proof (cases s)
  case Nil
  with assms show ?thesis by simp
next
  case (Cons c cs)
  with assms have "\<forall>x\<in>set cs. \<not> is_white_space x" and "\<not> is_white_space c" by simp_all
  then show ?thesis using Cons by (simp add: dropWhile_all takeWhile_all)
qed

lemma tokens_dropWhile_space: "tokens (dropWhile is_white_space s) = tokens s"
  by (induction s) simp_all

lemma tokens_piece:
  assumes a: "\<forall>x\<in>set piece. \<not> is_white_space x" and c: "is_white_space c"
  shows "tokens (piece @ c # cs) = (if piece = [] then [] else [piece]) @ tokens cs"
proof (cases piece)
  case Nil
  then show ?thesis using c by simp
next
  case (Cons p ps)
  have tw: "takeWhile (\<lambda>x. \<not> is_white_space x) (ps @ c # cs) = ps"
    using a c Cons by (simp add: takeWhile_append)
  have dw: "dropWhile (\<lambda>x. \<not> is_white_space x) (ps @ c # cs) = c # cs"
    using a c Cons by (simp add: dropWhile_append)
  show ?thesis using a c Cons by (simp add: tw dw)
qed

text \<open>The pieces of the split that are not empty are the tokens.\<close>

lemma split_from_tokens:
  "\<forall>x\<in>set piece. \<not> is_white_space x \<Longrightarrow>
   filter (\<lambda>w. w \<noteq> []) (split_from piece s) = tokens (piece @ s)"
proof (induction piece s rule: split_from.induct)
  case (1 piece)
  then show ?case by (cases "piece = []") (simp_all add: tokens_no_space)
next
  case (2 piece c cs)
  show ?case
  proof (cases "is_white_space c")
    case True
    have "filter (\<lambda>w. w \<noteq> []) (split_from [] (dropWhile is_white_space cs)) = tokens cs"
      using "2.IH"(1) [OF True] by (simp add: tokens_dropWhile_space)
    then show ?thesis using True "2.prems" by (simp add: tokens_piece)
  next
    case False
    then show ?thesis using "2.IH"(2) "2.prems" by simp
  qed
qed

lemma filter_split_tokens:
  "filter (\<lambda>word. 2 < length word) (split_white_space s) =
   filter (\<lambda>word. 2 < length word) (tokens s)"
proof -
  have "filter (\<lambda>word. 2 < length word) (split_white_space s) =
        filter (\<lambda>word. 2 < length word) (filter (\<lambda>w. w \<noteq> []) (split_white_space s))"
    by (simp, rule filter_cong, auto)
  also have "\<dots> = filter (\<lambda>word. 2 < length word) (tokens s)"
    using split_from_tokens [of "[]" s] by (simp add: split_white_space_def)
  finally show ?thesis .
qed

lemma tokens_append_space: "is_white_space w \<Longrightarrow> tokens (s @ [w]) = tokens s"
proof (induction s rule: tokens.induct)
  case 1
  then show ?case by simp
next
  case (2 c cs)
  show ?case
  proof (cases "is_white_space c")
    case True
    then show ?thesis using 2 by simp
  next
    case False
    show ?thesis
    proof (cases "\<forall>x\<in>set cs. \<not> is_white_space x")
      case True
      then show ?thesis using False "2.prems"
        by (simp add: takeWhile_append dropWhile_append dropWhile_all takeWhile_all)
    next
      case some: False
      then have tw: "takeWhile (\<lambda>x. \<not> is_white_space x) (cs @ [w]) =
          takeWhile (\<lambda>x. \<not> is_white_space x) cs"
        and dw: "dropWhile (\<lambda>x. \<not> is_white_space x) (cs @ [w]) =
          dropWhile (\<lambda>x. \<not> is_white_space x) cs @ [w]"
        by (auto simp add: takeWhile_append dropWhile_append)
      show ?thesis using False "2.IH"(2) [OF False "2.prems"]
        by (simp add: tw dw)
    qed
  qed
qed

lemma space_is_white_space: "is_white_space CHR '' ''"
  by (simp add: is_white_space_def code_unit_def)

lemma toLowerCase_space: "toLowerCase_unit CHR '' '' = CHR '' ''"
  by (simp add: toLowerCase_unit_def code_unit_def)

lemma normalise_append_space:
  "replace_non_word (toLowerCase (s @ '' '')) = replace_non_word (toLowerCase s) @ '' ''"
  by (simp add: replace_non_word_def toLowerCase_def toLowerCase_space space_is_white_space)

lemma words_of_append_space: "words_of (s @ '' '') = words_of s"
  by (simp add: words_of_def filter_split_tokens normalise_append_space
      tokens_append_space space_is_white_space)

lemma words_of_tokens:
  "set (words_of s) = {t \<in> set (tokens (replace_non_word (toLowerCase s))). 2 < length t}"
  by (simp add: words_of_def filter_split_tokens)

lemma set_extractKeywords:
  "set (extractKeywords r) =
     set (case repo_topics r of None \<Rightarrow> [] | Some topics \<Rightarrow> topics) \<union>
     set (words_of (repo_name r @ '' '' @
            (case repo_description r of None \<Rightarrow> [] | Some d \<Rightarrow> d)))"
  by (simp add: extractKeywords_def set_fold_Set_add split: option.splits)

text \<open>
  Claim C5. The keywords \<open>extractKeywords\<close> returns are, as a set, the topics together
  with the tokens longer than two characters of the lowercased \<open>name description\<close> with
  every character that is neither a word character nor white space replaced by a space;
  no keyword is returned twice. For the repository named \<open>My-Repo!\<close>, described as
  \<open>A cool tool\<close>, with the topics \<open>cli\<close> and \<open>go\<close>, the result is
  \<open>cli, go, repo, cool, tool\<close>, without \<open>my\<close> and \<open>a\<close>.
\<close>

theorem extractKeywords_spec:
  "set (extractKeywords r) =
     keywords_spec (case repo_topics r of None \<Rightarrow> [] | Some topics \<Rightarrow> topics) (repo_name r)
       (case repo_description r of None \<Rightarrow> [] | Some d \<Rightarrow> d)
   \<and> distinct (extractKeywords r)
   \<and> extractKeywords \<lparr>repo_name = ''My-Repo!'', repo_full_name = ''octo/My-Repo!'',
        repo_description = Some ''A cool tool'', repo_topics = Some [''cli'', ''go'']\<rparr>
      = [''cli'', ''go'', ''repo'', ''cool'', ''tool'']"
proof (intro conjI)
  show "set (extractKeywords r) =
     keywords_spec (case repo_topics r of None \<Rightarrow> [] | Some topics \<Rightarrow> topics) (repo_name r)
       (case repo_description r of None \<Rightarrow> [] | Some d \<Rightarrow> d)"
    by (simp only: set_extractKeywords keywords_spec_def words_of_tokens)
  show "distinct (extractKeywords r)"
    by (simp add: extractKeywords_def distinct_fold_Set_add split: option.splits)
  show "extractKeywords \<lparr>repo_name = ''My-Repo!'', repo_full_name = ''octo/My-Repo!'',
        repo_description = Some ''A cool tool'', repo_topics = Some [''cli'', ''go'']\<rparr>
      = [''cli'', ''go'', ''repo'', ''cool'', ''tool'']"
    by code_simp
qed

text \<open>
  Claim C10. For a repository whose description is \<open>null\<close>, \<open>extractKeywords\<close> returns
  what it returns for the empty description: the topics together with the tokens longer
  than two characters of the lowercased name alone. The join adds no token \<open>null\<close>: the
  result has it only when a topic or the name has.
\<close>

theorem extractKeywords_null_description:
  assumes d: "repo_description r = None"
  shows "extractKeywords r = extractKeywords (r\<lparr>repo_description := Some []\<rparr>)
   \<and> set (extractKeywords r) =
       set (case repo_topics r of None \<Rightarrow> [] | Some topics \<Rightarrow> topics) \<union>
       {t \<in> set (tokens (replace_non_word (toLowerCase (repo_name r)))). 2 < length t}
   \<and> (''null'' \<in> set (extractKeywords r) \<longrightarrow>
        ''null'' \<in> set (case repo_topics r of None \<Rightarrow> [] | Some topics \<Rightarrow> topics) \<or>
        ''null'' \<in> set (tokens (replace_non_word (toLowerCase (repo_name r)))))"
proof -
  have a: "extractKeywords r = extractKeywords (r\<lparr>repo_description := Some []\<rparr>)"
    using d by (simp add: extractKeywords_def)
  have b: "set (extractKeywords r) =
       set (case repo_topics r of None \<Rightarrow> [] | Some topics \<Rightarrow> topics) \<union>
       {t \<in> set (tokens (replace_non_word (toLowerCase (repo_name r)))). 2 < length t}"
    using d
    by (simp only: set_extractKeywords option.case append_Nil2 words_of_append_space
        words_of_tokens)
  from a b show ?thesis by auto
qed

theorem extractKeywords_null_description_witness:
  "extractKeywords \<lparr>repo_name = ''Smart-Router'', repo_full_name = ''octo/Smart-Router'',
        repo_description = None, repo_topics = Some [''js'']\<rparr>
     = [''js'', ''smart'', ''router'']
   \<and> extractKeywords \<lparr>repo_name = ''Smart-Router'', repo_full_name = ''octo/Smart-Router'',
        repo_description = Some [], repo_topics = Some [''js'']\<rparr>
     = [''js'', ''smart'', ''router'']"
proof -
  let ?r = "\<lparr>repo_name = ''Smart-Router'', repo_full_name = ''octo/Smart-Router'',
        repo_description = None, repo_topics = Some [''js'']\<rparr>"
  have v: "extractKeywords ?r = [''js'', ''smart'', ''router'']"
    by code_simp
  have d: "repo_description ?r = None" by simp
  have "extractKeywords ?r = extractKeywords (?r\<lparr>repo_description := Some []\<rparr>)"
    by (rule extractKeywords_null_description [OF d, THEN conjunct1])
  with v show ?thesis by simp
qed

section \<open>Properties of the constructor\<close>

text \<open>
  Claim C3, as amended. Constructing the router sends no request, whatever the outcome.
  It throws the configuration error exactly when one of the two credentials is not in
  the environment or is the empty string; otherwise it returns a router whose mapping
  is empty.
\<close>

theorem new_SmartRouter_credentials:
  "snd (new_SmartRouter dotenv_file process_env sent) = sent
   \<and> (fst (new_SmartRouter dotenv_file process_env sent) =
        Inl (Error (JString
          ''Missing required environment variables: GITHUB_TOKEN and/or VOYAGE_API_KEY''))
      \<or> (\<exists>router. fst (new_SmartRouter dotenv_file process_env sent) = Inr router
            \<and> repositories router = [] \<and> requests router = sent))
   \<and> ((\<exists>e. fst (new_SmartRouter dotenv_file process_env sent) = Inl e) =
      (dotenv_config dotenv_file process_env ''GITHUB_TOKEN'' = None
       \<or> dotenv_config dotenv_file process_env ''GITHUB_TOKEN'' = Some []
       \<or> dotenv_config dotenv_file process_env ''VOYAGE_API_KEY'' = None
       \<or> dotenv_config dotenv_file process_env ''VOYAGE_API_KEY'' = Some []))"
  by (auto simp: new_SmartRouter_def Let_def not_env_def split: option.splits)

theorem new_SmartRouter_credentials_witness:
  "snd (new_SmartRouter [(''VOYAGE_API_KEY'', ''key'')] [''GITHUB_TOKEN'' \<mapsto> ''token''] []) = []
   \<and> (\<exists>router.
        fst (new_SmartRouter [(''VOYAGE_API_KEY'', ''key'')] [''GITHUB_TOKEN'' \<mapsto> ''token''] [])
          = Inr router
        \<and> repositories router = [] \<and> requests router = [])"
  using new_SmartRouter_credentials
    [of "[(''VOYAGE_API_KEY'', ''key'')]" "[''GITHUB_TOKEN'' \<mapsto> ''token'']" "[]"]
  by (auto simp: dotenv_config_def)

text \<open>
  The claim as it was stated fails: with both credentials in the environment, one of
  them the empty string, the constructor throws.
\<close>

theorem new_SmartRouter_empty_credential:
  "dotenv_config [] [''GITHUB_TOKEN'' \<mapsto> [], ''VOYAGE_API_KEY'' \<mapsto> ''key''] ''GITHUB_TOKEN'' \<noteq> None
   \<and> dotenv_config [] [''GITHUB_TOKEN'' \<mapsto> [], ''VOYAGE_API_KEY'' \<mapsto> ''key''] ''VOYAGE_API_KEY''
        \<noteq> None
   \<and> new_SmartRouter [] [''GITHUB_TOKEN'' \<mapsto> [], ''VOYAGE_API_KEY'' \<mapsto> ''key''] [] =
       (Inl (Error (JString
          ''Missing required environment variables: GITHUB_TOKEN and/or VOYAGE_API_KEY'')), [])"
  by (simp add: new_SmartRouter_def dotenv_config_def not_env_def)

section \<open>Properties of the embedding request\<close>

lemma error_message_provider:
  "data \<noteq> JNull \<Longrightarrow> error_message data = Inr (provider_message data)"
proof (cases data)
  case (JObject kvs)
  show ?thesis
  proof (cases "map_of kvs ''error''")
    case None
    with JObject show ?thesis by (simp add: error_message_def)
  next
    case (Some err)
    with JObject show ?thesis by (cases err) (simp_all add: error_message_def)
  qed
qed (simp_all add: error_message_def)

text \<open>
  Claim C4, as amended. When the response is not \<open>ok\<close> and its body parses to a JSON
  value other than \<open>null\<close>, \<open>createEmbedding\<close> throws an \<open>Error\<close> made from the
  provider's message when the body has one that is truthy, and from
  \<open>Failed to create embedding\<close> otherwise. An error of the request itself, or of reading
  the body, leaves \<open>createEmbedding\<close> as it was raised. In every case exactly one request
  is sent: nothing is retried.
\<close>

theorem createEmbedding_failure:
  "(fetch net (requests s) (embeddings_request s text) = Response_not_ok data \<and> data \<noteq> JNull \<longrightarrow>
      fst (createEmbedding net text s) =
        Inl (Error (case provider_message data of
                      None \<Rightarrow> JString ''Failed to create embedding''
                    | Some m \<Rightarrow> if truthy_json m then m
                               else JString ''Failed to create embedding'')))
   \<and> (fetch net (requests s) (embeddings_request s text) = Fetch_rejected e \<longrightarrow>
        fst (createEmbedding net text s) = Inl e)
   \<and> (fetch net (requests s) (embeddings_request s text) = Json_rejected ok e \<longrightarrow>
        fst (createEmbedding net text s) = Inl e)
   \<and> requests (snd (createEmbedding net text s)) = requests s @ [embeddings_request s text]"
  by (simp add: createEmbedding_def Let_def embedding_result_def error_message_provider
      or_failed_def)

theorem createEmbedding_failure_witness:
  "fst (createEmbedding
         (failing_network (Response_not_ok
            (JObject [(''error'', JObject [(''message'', JString ''Rate limit exceeded'')])])))
         ''query'' example_router) = Inl (Error (JString ''Rate limit exceeded''))
   \<and> fst (createEmbedding (failing_network (Response_not_ok (JObject [(''detail'', JNumber 1)])))
         ''query'' example_router) = Inl (Error (JString ''Failed to create embedding''))
   \<and> fst (createEmbedding (failing_network (Fetch_rejected (External ''Failed to fetch'')))
         ''query'' example_router) = Inl (External ''Failed to fetch'')
   \<and> requests (snd (createEmbedding (failing_network (Fetch_rejected (External ''Failed to fetch'')))
         ''query'' example_router)) = [embeddings_request example_router ''query'']"
  using createEmbedding_failure
    [of "failing_network (Response_not_ok
            (JObject [(''error'', JObject [(''message'', JString ''Rate limit exceeded'')])]))"
        example_router "''query''"
        "JObject [(''error'', JObject [(''message'', JString ''Rate limit exceeded'')])]"]
    createEmbedding_failure
    [of "failing_network (Response_not_ok (JObject [(''detail'', JNumber 1)]))"
        example_router "''query''" "JObject [(''detail'', JNumber 1)]"]
    createEmbedding_failure
    [of "failing_network (Fetch_rejected (External ''Failed to fetch''))"
        example_router "''query''" _ "External ''Failed to fetch''"]
  by (simp add: failing_network_def example_router_def)

text \<open>
  The claim as it was stated fails: a response that is not \<open>ok\<close> with the body \<open>null\<close>
  ends in a \<open>TypeError\<close>, and one whose body is not JSON ends in the error of the parser;
  neither is the generic message.
\<close>

theorem createEmbedding_unparsable_body:
  "fst (createEmbedding (failing_network (Response_not_ok JNull)) ''query'' example_router) =
     Inl (TypeError ''Cannot read properties of null (reading error)'')
   \<and> fst (createEmbedding
           (failing_network (Json_rejected False (External ''SyntaxError: Unexpected token <'')))
           ''query'' example_router) = Inl (External ''SyntaxError: Unexpected token <'')"
  by (simp add: createEmbedding_def failing_network_def embedding_result_def error_message_def
      Let_def)

section \<open>Properties of the ranking\<close>









lemma mset_sort_insert: "mset (sort_insert comparefn x ys) = add_mset x (mset ys)"
  by (induction ys) simp_all

lemma mset_Array_sort: "mset (Array_sort comparefn xs) = mset xs"
  by (induction xs) (simp_all add: Array_sort_def mset_sort_insert)







lemma repo_matches_of: "map repo (matches_of q entries) = map fst entries"
  by (simp add: matches_of_def case_prod_unfold)

lemma createEmbedding_frame:
  "createEmbedding net text s = (res, s') \<Longrightarrow>
   repositories s' = repositories s \<and> assigned s' = assigned s \<and>
   requests s' = requests s @ [embeddings_request s text]"
  by (auto simp: createEmbedding_def Let_def)



lemma example_embedding:
  "createEmbedding example_network ''query'' example_router =
     (Inr [Num 1, Num 0, Num 0, Num 0],
      example_router\<lparr>requests := [embeddings_request example_router ''query'']\<rparr>)"
  by (simp add: createEmbedding_def example_network_def example_router_def
      embedding_result_def Let_def)




text \<open>
  Claim C9. When the text embeds, the list \<open>findMatches\<close> returns is a permutation of
  the keys of the mapping: it has every key, as often as the mapping has it, and nothing
  else; the keys of a mapping being distinct, every key is there exactly once.
\<close>

theorem findMatches_permutation:
  assumes emb: "createEmbedding net text s = (Inr q, s')"
  shows "\<exists>names.
     findMatches net text s = (Inr names, s')
     \<and> mset names = mset (map fst (repositories s))
     \<and> set names = fst ` set (repositories s)
     \<and> length names = length (repositories s)
     \<and> (distinct (map fst (repositories s)) \<longrightarrow> distinct names)"
proof -
  let ?c = "\<lambda>a b. jssub (similarity b) (similarity a)"
  let ?ms = "matches_of q (repositories s)"
  let ?names = "map repo (Array_sort ?c ?ms)"
  have same: "repositories s' = repositories s"
    using createEmbedding_frame [OF emb] by simp
  have run: "findMatches net text s = (Inr ?names, s')"
    using emb same by (simp add: findMatches_def)
  have "mset ?names = image_mset repo (mset (Array_sort ?c ?ms))"
    by simp
  also have "\<dots> = image_mset repo (mset ?ms)"
    by (simp only: mset_Array_sort)
  also have "\<dots> = mset (map repo ?ms)"
    by simp
  also have "\<dots> = mset (map fst (repositories s))"
    by (simp only: repo_matches_of)
  finally have perm: "mset ?names = mset (map fst (repositories s))" .
  have "set ?names = fst ` set (repositories s)"
    using perm [THEN arg_cong, of set_mset] by simp
  moreover have "length ?names = length (repositories s)"
    using perm [THEN arg_cong, of size] by simp
  moreover have "distinct (map fst (repositories s)) \<longrightarrow> distinct ?names"
    using perm by (metis mset_eq_imp_distinct_iff)
  ultimately show ?thesis using run perm by blast
qed

theorem findMatches_permutation_witness:
  "distinct (map fst (repositories example_router))
   \<and> (\<exists>names.
        findMatches example_network ''query'' example_router =
          (Inr names, example_router\<lparr>requests := [embeddings_request example_router ''query'']\<rparr>)
        \<and> mset names = mset [''octo/zero'', ''octo/near'', ''octo/same'', ''octo/twin'']
        \<and> distinct names)"
proof -
  have d: "distinct (map fst (repositories example_router))"
    by (simp add: example_router_def)
  have k: "map fst (repositories example_router) =
      [''octo/zero'', ''octo/near'', ''octo/same'', ''octo/twin'']"
    by (simp add: example_router_def)
  from findMatches_permutation [OF example_embedding] d k show ?thesis
    by auto
qed

text \<open>
  Claim C8. \<open>findMatches\<close>, the one operation run after the initialization, leaves the
  mapping as it is, whether it returns or throws: the entries, their order and each
  record's description, keywords and embedding are the same after it, and no assignment
  is made. The same holds of \<open>createEmbedding\<close>.
\<close>

theorem findMatches_frame:
  "repositories (snd (findMatches net text s)) = repositories s
   \<and> assigned (snd (findMatches net text s)) = assigned s
   \<and> repositories (snd (createEmbedding net text s)) = repositories s"
  by (simp add: findMatches_def createEmbedding_def Let_def split: sum.splits)

theorem findMatches_frame_witness:
  "repositories (snd (findMatches example_network ''query'' example_router)) =
     repositories example_router
   \<and> assigned (snd (findMatches example_network ''query'' example_router)) = []"
  using findMatches_frame [of example_network "''query''" example_router]
  by (simp add: example_router_def)

section \<open>Properties of the initialization\<close>

lemma all_succeed_append:
  "all_succeed net before (xs @ ys) =
     (all_succeed net before xs \<and> all_succeed net (before @ xs) ys)"
  by (induction xs arbitrary: before) simp_all

lemma all_succeed_nth:
  "all_succeed net before xs \<Longrightarrow> i < length xs \<Longrightarrow>
   request_error net (before @ take i xs) (xs ! i) = None"
proof (induction xs arbitrary: before i)
  case Nil
  then show ?case by simp
next
  case (Cons x xs)
  show ?case
  proof (cases i)
    case 0
    with Cons.prems show ?thesis by simp
  next
    case (Suc j)
    with Cons.prems Cons.IH [of "before @ [x]" j] show ?thesis by simp
  qed
qed

lemma run_requests_seq:
  assumes "run_requests net s (Inr v) s1 sent1" and "run_requests net s1 res s2 sent2"
  shows "run_requests net s res s2 (sent1 @ sent2)"
proof (cases res)
  case (Inl e)
  with assms show ?thesis
    by (simp add: run_requests_def all_succeed_append butlast_append)
next
  case (Inr u)
  with assms show ?thesis
    by (simp add: run_requests_def all_succeed_append)
qed

lemma run_requests_retype:
  "run_requests net s (Inl e :: js_error + 'a) s' sent =
   run_requests net s (Inl e :: js_error + 'b) s' sent"
  by (simp add: run_requests_def)

lemma run_assignments_refl: "run_assignments s s []"
  by (simp add: run_assignments_def)

lemma run_assignments_seq:
  "run_assignments s s1 made1 \<Longrightarrow> run_assignments s1 s2 made2 \<Longrightarrow>
   run_assignments s s2 (made1 @ made2)"
  by (simp add: run_assignments_def)

lemma createEmbedding_run:
  assumes "createEmbedding net text s = (res, s')"
  shows "run_requests net s res s' [embeddings_request s text] \<and> run_assignments s s' []"
proof -
  from assms have res: "res = embedding_result (fetch net (requests s) (embeddings_request s text))"
    and s': "s' = s\<lparr>requests := requests s @ [embeddings_request s text]\<rparr>"
    by (auto simp: createEmbedding_def Let_def)
  show ?thesis
    by (cases "embedding_result (fetch net (requests s) (embeddings_request s text))")
       (simp_all add: res s' run_requests_def run_assignments_def request_error_def
          embeddings_request_def)
qed

lemma processRepositories_run:
  "processRepositories net repos s = (res, s') \<Longrightarrow>
   \<exists>sent made. run_requests net s res s' sent \<and> run_assignments s s' made"
proof (induction repos arbitrary: s)
  case Nil
  then have "run_requests net s res s' [] \<and> run_assignments s s' []"
    by (auto simp: run_requests_def run_assignments_def)
  then show ?case by blast
next
  case (Cons r repos)
  let ?d = "case repo_description r of None \<Rightarrow> [] | Some d \<Rightarrow> d"
  let ?text = "?d @ '' '' @ array_join '' '' (map Some (extractKeywords r))"
  obtain er s1 where emb: "createEmbedding net ?text s = (er, s1)"
    by (cases "createEmbedding net ?text s") auto
  note first = createEmbedding_run [OF emb]
  show ?case
  proof (cases er)
    case (Inl e)
    with Cons.prems emb have "res = Inl e" and "s' = s1" by (simp_all add: Let_def)
    with first Inl show ?thesis
      using run_requests_retype [of net s e s1] by blast
  next
    case (Inr v)
    let ?data = "\<lparr>description = ?d, keywords = extractKeywords r, embedding = v\<rparr>"
    let ?s2 = "s1\<lparr>repositories := AList.update (repo_full_name r) ?data (repositories s1),
                  assigned := assigned s1 @ [(repo_full_name r, ?data)]\<rparr>"
    from Cons.prems emb Inr have rest: "processRepositories net repos ?s2 = (res, s')"
      by (simp add: Let_def)
    from Cons.IH [OF rest] obtain sent made
      where a: "run_requests net ?s2 res s' sent" and b: "run_assignments ?s2 s' made"
      by blast
    from first Inr have a1: "run_requests net s (Inr v) ?s2 [embeddings_request s ?text]"
      by (simp add: run_requests_def)
    from first have b1: "run_assignments s ?s2 [(repo_full_name r, ?data)]"
      by (simp add: run_assignments_def)
    have a2: "run_requests net ?s2 res s' sent"
      using a by simp
    from run_requests_seq [OF a1 a2] run_assignments_seq [OF b1 b] show ?thesis
      by blast
  qed
qed

lemma list_repos_run:
  assumes req: "req = Repos_listForAuthenticatedUser auth \<or> req = Repos_listForOrg auth nm n"
    and run: "(case octokit_repos net (requests s) req of
           Inl e \<Rightarrow> (Inl e, s\<lparr>requests := requests s @ [req]\<rparr>)
         | Inr repos \<Rightarrow> processRepositories net repos (s\<lparr>requests := requests s @ [req]\<rparr>))
       = (res, s')"
  shows "\<exists>sent made. run_requests net s res s' sent \<and> run_assignments s s' made"
proof (cases "octokit_repos net (requests s) req")
  case (Inl e)
  with run have "res = Inl e" and "s' = s\<lparr>requests := requests s @ [req]\<rparr>" by simp_all
  with Inl req have "run_requests net s res s' [req] \<and> run_assignments s s' []"
    by (auto simp: run_requests_def run_assignments_def request_error_def)
  then show ?thesis by blast
next
  case (Inr repos)
  let ?s0 = "s\<lparr>requests := requests s @ [req]\<rparr>"
  from run Inr have "processRepositories net repos ?s0 = (res, s')" by simp
  from processRepositories_run [OF this] obtain sent made
    where a: "run_requests net ?s0 res s' sent" and b: "run_assignments ?s0 s' made"
    by blast
  from Inr req have a0: "run_requests net s (Inr ()) ?s0 [req]"
    by (auto simp: run_requests_def request_error_def)
  have b0: "run_assignments s ?s0 []" by (simp add: run_assignments_def)
  from run_requests_seq [OF a0 a] run_assignments_seq [OF b0 b] show ?thesis by blast
qed

lemma fetchUserRepositories_run:
  "fetchUserRepositories net s = (res, s') \<Longrightarrow>
   \<exists>sent made. run_requests net s res s' sent \<and> run_assignments s s' made"
  using list_repos_run [where req = "Repos_listForAuthenticatedUser (octokit_auth s)"
      and auth = "octokit_auth s" and net = net and s = s and res = res and s' = s']
  by (simp add: fetchUserRepositories_def Let_def)

lemma fetchOrgRepositories_run:
  "fetchOrgRepositories net orgName s = (res, s') \<Longrightarrow>
   \<exists>sent made. run_requests net s res s' sent \<and> run_assignments s s' made"
  using list_repos_run [where req = "Repos_listForOrg (octokit_auth s) orgName 100"
      and auth = "octokit_auth s" and nm = orgName and n = 100
      and net = net and s = s and res = res and s' = s']
  by (simp add: fetchOrgRepositories_def Let_def)

lemma for_orgs_run:
  "for_orgs net orgs s = (res, s') \<Longrightarrow>
   \<exists>sent made. run_requests net s res s' sent \<and> run_assignments s s' made"
proof (induction orgs arbitrary: s)
  case Nil
  then have "run_requests net s res s' [] \<and> run_assignments s s' []"
    by (auto simp: run_requests_def run_assignments_def)
  then show ?case by blast
next
  case (Cons org orgs)
  obtain r1 s1 where one: "fetchOrgRepositories net (org_login org) s = (r1, s1)"
    by (cases "fetchOrgRepositories net (org_login org) s") auto
  from fetchOrgRepositories_run [OF one] obtain sent1 made1
    where a1: "run_requests net s r1 s1 sent1" and b1: "run_assignments s s1 made1"
    by blast
  show ?case
  proof (cases r1)
    case (Inl e)
    with Cons.prems one have "res = Inl e" and "s' = s1" by simp_all
    with a1 b1 Inl show ?thesis
      using run_requests_retype [of net s e s1] by blast
  next
    case (Inr u)
    with Cons.prems one have "for_orgs net orgs s1 = (res, s')" by simp
    from Cons.IH [OF this] obtain sent made
      where a: "run_requests net s1 res s' sent" and b: "run_assignments s1 s' made"
      by blast
    from a1 Inr have "run_requests net s (Inr u) s1 sent1" by simp
    from run_requests_seq [OF this a] run_assignments_seq [OF b1 b] show ?thesis by blast
  qed
qed

lemma initialize_run:
  assumes "initialize net s = (res, s')"
  shows "\<exists>sent made. run_requests net s res s' sent \<and> run_assignments s s' made"
proof -
  let ?req = "Orgs_listForAuthenticatedUser (octokit_auth s)"
  let ?s0 = "s\<lparr>requests := requests s @ [?req]\<rparr>"
  show ?thesis
  proof (cases "octokit_orgs net (requests s) ?req")
    case (Inl e)
    with assms have "res = Inl e" and "s' = ?s0" by (simp_all add: initialize_def Let_def)
    with Inl have "run_requests net s res s' [?req] \<and> run_assignments s s' []"
      by (simp add: run_requests_def run_assignments_def request_error_def)
    then show ?thesis by blast
  next
    case (Inr orgs)
    from Inr have a0: "run_requests net s (Inr ()) ?s0 [?req]"
      by (simp add: run_requests_def request_error_def)
    have b0: "run_assignments s ?s0 []" by (simp add: run_assignments_def)
    obtain r1 s1 where user: "fetchUserRepositories net ?s0 = (r1, s1)"
      by (cases "fetchUserRepositories net ?s0") auto
    from fetchUserRepositories_run [OF user] obtain sent1 made1
      where a1: "run_requests net ?s0 r1 s1 sent1" and b1: "run_assignments ?s0 s1 made1"
      by blast
    show ?thesis
    proof (cases r1)
      case (Inl e)
      with assms Inr user have "res = Inl e" and "s' = s1"
        by (simp_all add: initialize_def Let_def)
      with a1 Inl have "run_requests net ?s0 res s' sent1"
        using run_requests_retype [of net ?s0 e s1] by blast
      from run_requests_seq [OF a0 this] run_assignments_seq [OF b0 b1] \<open>s' = s1\<close>
      show ?thesis by blast
    next
      case (Inr u)
      with assms \<open>octokit_orgs net (requests s) ?req = Inr orgs\<close> user
      have "for_orgs net orgs s1 = (res, s')"
        by (simp add: initialize_def Let_def)
      from for_orgs_run [OF this] obtain sent2 made2
        where a2: "run_requests net s1 res s' sent2" and b2: "run_assignments s1 s' made2"
        by blast
      from a1 Inr have "run_requests net ?s0 (Inr u) s1 sent1" by simp
      from run_requests_seq [OF a0 run_requests_seq [OF this a2]]
        run_assignments_seq [OF b0 run_assignments_seq [OF b1 b2]]
      show ?thesis by blast
    qed
  qed
qed

lemma map_of_fold_update:
  "map_of (fold (\<lambda>(name, data). AList.update name data) made entries) =
   map_of entries ++ map_of (rev made)"
proof (induction made arbitrary: entries)
  case Nil
  show ?case by simp
next
  case (Cons a made)
  obtain k v where a: "a = (k, v)" by (cases a)
  have "map_of (AList.update k v entries) ++ map_of (rev made) =
        map_of entries ++ (map_of (rev made))(k \<mapsto> v) ++ map_of (rev made)"
    by (simp add: update_conv' map_add_def fun_eq_iff split: option.splits)
  then show ?case using Cons [of "AList.update k v entries"] a
    by (simp add: map_add_def fun_eq_iff update_conv' split: option.splits)
qed

text \<open>
  The keys of the mapping stay distinct, as the property names of an object are: the
  constructor leaves no key, and an assignment adds a key or replaces the record of one.
\<close>

lemma distinct_fold_update:
  "distinct (map fst entries) \<Longrightarrow>
   distinct (map fst (fold (\<lambda>(name, data). AList.update name data) made entries))"
  by (induction made arbitrary: entries) (auto simp: distinct_update)

lemma initialize_distinct_keys:
  assumes "initialize net s = (res, s')" and "distinct (map fst (repositories s))"
  shows "distinct (map fst (repositories s'))"
proof -
  from initialize_run [OF assms(1)] obtain made where "run_assignments s s' made"
    by blast
  with assms(2) show ?thesis
    by (simp add: run_assignments_def distinct_fold_update)
qed

text \<open>
  Claim C7. A run of \<open>initialize\<close> sends requests, one after the other. If any of them
  fails, it is the last one sent, and \<open>initialize\<close> throws the error it failed with; and
  \<open>initialize\<close> throws only so. Whether the run returns or throws, the mapping after it
  is the mapping before it with every assignment of the run made and none undone: each
  name is bound to the record assigned to it last, and every name assigned is a key.
\<close>

theorem initialize_failure:
  assumes run: "initialize net s = (res, s')"
  shows "\<exists>sent made.
     requests s' = requests s @ sent
     \<and> (\<forall>i e. i < length sent \<and>
            request_error net (requests s @ take i sent) (sent ! i) = Some e \<longrightarrow>
            res = Inl e \<and> Suc i = length sent)
     \<and> (\<forall>e. res = Inl e \<longrightarrow>
            sent \<noteq> [] \<and>
            request_error net (requests s @ butlast sent) (last sent) = Some e)
     \<and> assigned s' = assigned s @ made
     \<and> map_of (repositories s') = map_of (repositories s) ++ map_of (rev made)
     \<and> fst ` set made \<subseteq> fst ` set (repositories s')"
proof -
  from initialize_run [OF run] obtain sent made
    where a: "run_requests net s res s' sent" and b: "run_assignments s s' made"
    by blast
  have 1: "requests s' = requests s @ sent" using a by (simp add: run_requests_def)
  have 2: "res = Inl e \<and> Suc i = length sent"
    if i: "i < length sent"
      and f: "request_error net (requests s @ take i sent) (sent ! i) = Some e" for i e
  proof (cases res)
    case (Inr u)
    with a have "all_succeed net (requests s) sent" by (simp add: run_requests_def)
    from all_succeed_nth [OF this i] f show ?thesis by simp
  next
    case (Inl e')
    with a have ne: "sent \<noteq> []" and ok: "all_succeed net (requests s) (butlast sent)"
      and last: "request_error net (requests s @ butlast sent) (last sent) = Some e'"
      by (simp_all add: run_requests_def)
    show ?thesis
    proof (cases "i < length (butlast sent)")
      case True
      have t: "take i (butlast sent) = take i sent"
        using i by (simp add: take_butlast)
      have n: "butlast sent ! i = sent ! i"
        using True by (simp add: nth_butlast)
      from all_succeed_nth [OF ok True]
      have "request_error net (requests s @ take i sent) (sent ! i) = None"
        by (simp only: t n)
      with f show ?thesis by simp
    next
      case False
      with i have eq: "Suc i = length sent" by simp
      then have i': "i = length sent - 1" by simp
      have "take i sent = butlast sent" and "sent ! i = last sent"
        using ne by (simp_all add: i' butlast_conv_take last_conv_nth)
      with f last Inl eq show ?thesis by simp
    qed
  qed
  have 3: "\<forall>e. res = Inl e \<longrightarrow>
            sent \<noteq> [] \<and> request_error net (requests s @ butlast sent) (last sent) = Some e"
    using a by (auto simp: run_requests_def)
  have 4: "assigned s' = assigned s @ made" using b by (simp add: run_assignments_def)
  have 5: "map_of (repositories s') = map_of (repositories s) ++ map_of (rev made)"
    using b by (simp add: run_assignments_def map_of_fold_update)
  have 6: "fst ` set made \<subseteq> fst ` set (repositories s')"
  proof
    fix k assume "k \<in> fst ` set made"
    then have "k \<in> dom (map_of (rev made))" by (simp add: dom_map_of_conv_image_fst)
    then have "k \<in> dom (map_of (repositories s'))" by (simp add: 5)
    then show "k \<in> fst ` set (repositories s')" by (simp add: dom_map_of_conv_image_fst)
  qed
  from 1 2 3 4 5 6 show ?thesis by blast
qed

lemma offline_run:
  "fst (initialize offline_network new_router) = Inl (External ''offline'')"
  "map fst (repositories (snd (initialize offline_network new_router))) = [''octo/one'']"
  "length (requests (snd (initialize offline_network new_router))) = 4"
  by code_simp+

theorem initialize_failure_witness:
  "fst (initialize offline_network new_router) = Inl (External ''offline'')
   \<and> map fst (repositories (snd (initialize offline_network new_router))) = [''octo/one'']
   \<and> (\<exists>sent made.
        requests (snd (initialize offline_network new_router)) = sent
        \<and> length sent = 4
        \<and> request_error offline_network (butlast sent) (last sent) = Some (External ''offline'')
        \<and> assigned (snd (initialize offline_network new_router)) = made
        \<and> fst ` set made \<subseteq> {''octo/one''})"
proof -
  have run: "initialize offline_network new_router =
      (fst (initialize offline_network new_router), snd (initialize offline_network new_router))"
    by simp
  have start: "requests new_router = []" "assigned new_router = []"
    by (simp_all add: new_router_def)
  from initialize_failure [OF run] obtain sent made where
    a: "requests (snd (initialize offline_network new_router)) = requests new_router @ sent"
    and b: "\<forall>e. fst (initialize offline_network new_router) = Inl e \<longrightarrow>
            sent \<noteq> [] \<and>
            request_error offline_network (requests new_router @ butlast sent) (last sent) = Some e"
    and c: "assigned (snd (initialize offline_network new_router)) = assigned new_router @ made"
    and d: "fst ` set made \<subseteq> fst ` set (repositories (snd (initialize offline_network new_router)))"
    by blast
  have keys: "fst ` set (repositories (snd (initialize offline_network new_router))) = {''octo/one''}"
    using offline_run(2) [THEN arg_cong, of set] by simp
  from a b c d keys offline_run start show ?thesis
    by auto
qed

end
